theory Spec2Isabelle
  imports Main
begin

section \<open>Text, digits and blanks\<close>

text \<open>
  The program exists in two files, \<open>lunch_menu.py\<close> and \<open>lunch_menu_playwright.py\<close>.
  Their \<open>parse_date\<close>, \<open>is_today\<close> and \<open>scrape_menu\<close> are the same code, apart
  from the way the page is fetched; the retry loop is the \<open>main\<close> of the second file.

  A Python \<open>str\<close> is a sequence of Unicode code points; a text is modelled as the list of
  its code points. The patterns of \<open>parse_date\<close> are \<open>str\<close> patterns compiled without
  \<open>re.ASCII\<close>, so \<open>\d\<close> matches every character of category Nd and \<open>\s\<close> every
  character for which \<open>str.isspace\<close> holds. Both tables belong to the Python runtime, not
  to the repository; they are written out here as in Unicode 14.0 (CPython 3.11). Every Nd
  character lies in a run of ten consecutive code points carrying the values 0 to 9, so the
  table lists the code point of each run's zero.
\<close>

type_synonym pystr = "nat list"

definition decimal_zeros :: "nat list" where
  "decimal_zeros =
    [48, 1632, 1776, 1984, 2406, 2534, 2662, 2790, 2918, 3046, 3174, 3302, 3430, 3558,
     3664, 3792, 3872, 4160, 4240, 6112, 6160, 6470, 6608, 6784, 6800, 6992, 7088, 7232,
     7248, 42528, 43216, 43264, 43472, 43504, 43600, 44016, 65296, 66720, 68912, 69734,
     69872, 69942, 70096, 70384, 70736, 70864, 71248, 71360, 71472, 71904, 72016, 72784,
     73040, 73120, 92768, 92864, 93008, 120782, 120792, 120802, 120812, 120822, 123200,
     123632, 125264, 130032]"

definition space_chars :: "nat list" where
  "space_chars =
    [9, 10, 11, 12, 13, 28, 29, 30, 31, 32, 133, 160, 5760, 8192, 8193, 8194, 8195, 8196,
     8197, 8198, 8199, 8200, 8201, 8202, 8232, 8233, 8239, 8287, 12288]"

text \<open>The decimal value of a character, \<open>None\<close> when it is not a decimal digit.\<close>

definition digit_value :: "nat \<Rightarrow> nat option" where
  "digit_value c =
     map_option (\<lambda>z. c - z) (find (\<lambda>z. z \<le> c \<and> c < z + 10) decimal_zeros)"

definition is_digit :: "nat \<Rightarrow> bool" where
  "is_digit c = (digit_value c \<noteq> None)"

definition is_space :: "nat \<Rightarrow> bool" where
  "is_space c = (c \<in> set space_chars)"

text \<open>The three Hangul syllables of the patterns, and the two ASCII separators.\<close>

definition ch_year :: nat where "ch_year = 45380"
definition ch_month :: nat where "ch_month = 50900"
definition ch_day :: nat where "ch_day = 51068"
definition ch_dot :: nat where "ch_dot = 46"
definition ch_slash :: nat where "ch_slash = 47"

section \<open>Exceptions, \<open>int\<close> and \<open>datetime\<close>\<close>

datatype exn = ValueError | OverflowError | IndexError | AttributeError | OtherError

text \<open>
  \<open>int(s)\<close> on a string of decimal digits of any script. The strings that reach it are the
  groups captured by \<open>(\d{..})\<close>, which hold decimal digits only; on the empty string
  and on a character that is no digit the model answers \<open>ValueError\<close> (the signs,
  underscores and surrounding blanks that \<open>int\<close> also accepts never occur in a group).
\<close>

fun int_digits :: "int \<Rightarrow> pystr \<Rightarrow> exn + int" where
  "int_digits acc [] = Inr acc"
| "int_digits acc (c # cs) =
     (case digit_value c of
        None \<Rightarrow> Inl ValueError
      | Some v \<Rightarrow> int_digits (10 * acc + int v) cs)"

definition py_int :: "pystr \<Rightarrow> exn + int" where
  "py_int s = (if s = [] then Inl ValueError else int_digits 0 s)"

text \<open>
  A \<open>datetime\<close> built from year, month and day has a zero time of day, and the program only
  ever reads its calendar date, so it is modelled by the date alone.
\<close>

record date =
  year :: int
  month :: int
  day :: int

definition is_leap :: "int \<Rightarrow> bool" where
  "is_leap y = (y mod 4 = 0 \<and> (y mod 100 \<noteq> 0 \<or> y mod 400 = 0))"

definition days_in_month :: "int \<Rightarrow> int \<Rightarrow> int" where
  "days_in_month y m =
     (if m = 2 then (if is_leap y then 29 else 28)
      else if m = 4 \<or> m = 6 \<or> m = 9 \<or> m = 11 then 30
      else 31)"

definition fits_c_int :: "int \<Rightarrow> bool" where
  "fits_c_int n = (- 2147483648 \<le> n \<and> n \<le> 2147483647)"

text \<open>
  \<open>datetime(y, m, d)\<close>: the arguments are converted to C integers (\<open>OverflowError\<close>), then
  the year must lie in 1..9999, the month in 1..12 and the day in the month
  (\<open>ValueError\<close>).
\<close>

definition datetime_new :: "int \<Rightarrow> int \<Rightarrow> int \<Rightarrow> exn + date" where
  "datetime_new y m d =
     (if \<not> (fits_c_int y \<and> fits_c_int m \<and> fits_c_int d) then Inl OverflowError
      else if y < 1 \<or> 9999 < y then Inl ValueError
      else if m < 1 \<or> 12 < m then Inl ValueError
      else if d < 1 \<or> days_in_month y m < d then Inl ValueError
      else Inr \<lparr>year = y, month = m, day = d\<rparr>)"

section \<open>The four patterns and \<open>re.search\<close>\<close>

text \<open>
  The patterns of \<open>parse_date\<close> are sequences of three kinds of pieces: a capturing group
  \<open>(\d{lo,hi})\<close>, the greedy \<open>\s*\<close>, and a literal character. A match is the list of
  its captured groups, \<open>group(1)\<close> first.
\<close>

datatype piece = Digits nat nat | Spaces | Lit nat

fun first_some :: "('a \<Rightarrow> 'b option) \<Rightarrow> 'a list \<Rightarrow> 'b option" where
  "first_some f [] = None"
| "first_some f (x # xs) = (case f x of Some y \<Rightarrow> Some y | None \<Rightarrow> first_some f xs)"

definition run_length :: "(nat \<Rightarrow> bool) \<Rightarrow> pystr \<Rightarrow> nat" where
  "run_length P t = length (takeWhile P t)"

text \<open>
  Matching at the start of a text, with the backtracking of the \<open>re\<close> engine: a greedy
  repetition first takes as many characters as it may and gives them back one at a time
  while the rest of the pattern fails.
\<close>

primrec match_here :: "piece list \<Rightarrow> pystr \<Rightarrow> pystr list option" where
  "match_here [] t = Some []"
| "match_here (p # ps) t =
     (case p of
        Lit c \<Rightarrow>
          (case t of
             [] \<Rightarrow> None
           | x # xs \<Rightarrow> if x = c then match_here ps xs else None)
      | Spaces \<Rightarrow>
          first_some (\<lambda>n. match_here ps (drop n t))
            (rev [0 ..< Suc (run_length is_space t)])
      | Digits lo hi \<Rightarrow>
          first_some (\<lambda>n. map_option ((#) (take n t)) (match_here ps (drop n t)))
            (rev [lo ..< Suc (min hi (run_length is_digit t))]))"

text \<open>\<open>re.search\<close>: the match at the leftmost position where the pattern matches.\<close>

fun re_search :: "piece list \<Rightarrow> pystr \<Rightarrow> pystr list option" where
  "re_search ps [] = match_here ps []"
| "re_search ps (x # xs) =
     (case match_here ps (x # xs) of
        Some m \<Rightarrow> Some m
      | None \<Rightarrow> re_search ps xs)"

definition pat_full :: "piece list" where
  "pat_full = [Digits 4 4, Lit ch_year, Spaces, Digits 1 2, Lit ch_month, Spaces,
               Digits 1 2, Lit ch_day]"

definition pat_month_day :: "piece list" where
  "pat_month_day = [Digits 1 2, Lit ch_month, Spaces, Digits 1 2, Lit ch_day]"

definition pat_dotted :: "piece list" where
  "pat_dotted = [Digits 1 2, Lit ch_dot, Digits 1 2]"

definition pat_slashed :: "piece list" where
  "pat_slashed = [Digits 1 2, Lit ch_slash, Digits 1 2]"

text \<open>\<open>m.group(i)\<close>, for \<open>i\<close> from 1.\<close>

definition group :: "pystr list \<Rightarrow> nat \<Rightarrow> exn + pystr" where
  "group m i = (if 1 \<le> i \<and> i \<le> length m then Inr (m ! (i - 1)) else Inl IndexError)"

definition bind :: "exn + 'a \<Rightarrow> ('a \<Rightarrow> exn + 'b) \<Rightarrow> exn + 'b" where
  "bind r f = (case r of Inl e \<Rightarrow> Inl e | Inr v \<Rightarrow> f v)"

text \<open>
  The two constructors of the source. Python evaluates the arguments of \<open>datetime(...)\<close>
  from left to right, then calls it. \<open>year_now\<close> is \<open>datetime.now().year\<close>, read when the
  constructor runs; the year is taken not to change within one call of \<open>parse_date\<close>.
\<close>

definition parser_full :: "pystr list \<Rightarrow> exn + date" where
  "parser_full m =
     bind (bind (group m 1) py_int) (\<lambda>y.
     bind (bind (group m 2) py_int) (\<lambda>mo.
     bind (bind (group m 3) py_int) (\<lambda>d.
     datetime_new y mo d)))"

definition parser_this_year :: "int \<Rightarrow> pystr list \<Rightarrow> exn + date" where
  "parser_this_year year_now m =
     bind (bind (group m 1) py_int) (\<lambda>mo.
     bind (bind (group m 2) py_int) (\<lambda>d.
     datetime_new year_now mo d))"

definition patterns :: "int \<Rightarrow> (piece list \<times> (pystr list \<Rightarrow> exn + date)) list" where
  "patterns year_now =
     [(pat_full, parser_full),
      (pat_month_day, parser_this_year year_now),
      (pat_dotted, parser_this_year year_now),
      (pat_slashed, parser_this_year year_now)]"

text \<open>
  The loop of \<open>parse_date\<close>: a pattern that does not match is passed over; a match whose
  constructor raises \<open>ValueError\<close> is passed over too (\<open>except ValueError: continue\<close>);
  any other exception leaves the function; the first date built is returned. \<open>None\<close> is
  returned when the list is exhausted.
\<close>

fun try_patterns ::
  "(piece list \<times> (pystr list \<Rightarrow> exn + date)) list \<Rightarrow> pystr \<Rightarrow> exn + date option" where
  "try_patterns [] txt = Inr None"
| "try_patterns ((pat, parser) # rest) txt =
     (case re_search pat txt of
        None \<Rightarrow> try_patterns rest txt
      | Some m \<Rightarrow>
          (case parser m of
             Inr d \<Rightarrow> Inr (Some d)
           | Inl ValueError \<Rightarrow> try_patterns rest txt
           | Inl e \<Rightarrow> Inl e))"

definition parse_date :: "int \<Rightarrow> pystr \<Rightarrow> exn + date option" where
  "parse_date year_now txt = try_patterns (patterns year_now) txt"

section \<open>Scraping one restaurant\<close>

record restaurant =
  name :: pystr
  url :: pystr
  channel_id :: pystr
  date_in_post :: bool

type_synonym image = nat

text \<open>
  What the collaborators of \<open>scrape_menu\<close> answer for one restaurant on one attempt. The
  page fetch and the image download catch every exception themselves and answer \<open>None\<close>;
  \<open>extract_image_url\<close>, \<open>extract_post_date\<close>, \<open>init_ocr\<close> and
  \<open>preprocess_image\<close> have no handler of their own, so they may raise; the call
  \<open>reader.readtext\<close> sits inside the \<open>try\<close> of \<open>extract_text_from_image\<close>. The
  clock is read once for each \<open>parse_date\<close> call and once in \<open>is_today\<close>.
\<close>

record site =
  page_html :: "pystr option"
  image_url_found :: "exn + pystr option"
  image_file :: "image option"
  post_title_found :: "exn + pystr option"
  ocr_prepared :: "exn + unit"
  ocr_read :: "exn + pystr"
  year_at_title :: int
  year_at_ocr :: int
  today :: date

text \<open>
  The dictionary built by \<open>scrape_menu\<close>. Its \<open>'date'\<close> entry is the \<open>%Y-%m-%d\<close>
  rendering of the date, or a fixed placeholder when there is none; the record keeps the
  date itself.
\<close>

record menu_record =
  rec_restaurant :: pystr
  rec_date :: "date option"
  rec_is_today :: bool
  rec_image_url :: pystr
  rec_menu_text :: pystr
  rec_image :: image

text \<open>Truth value of an optional string: \<open>None\<close> and the empty string are false.\<close>

definition truthy :: "pystr option \<Rightarrow> bool" where
  "truthy x = (case x of None \<Rightarrow> False | Some s \<Rightarrow> s \<noteq> [])"

text \<open>\<open>date.date()\<close>: an attribute access, which raises on \<open>None\<close>.\<close>

definition date_of :: "date option \<Rightarrow> exn + date" where
  "date_of d = (case d of None \<Rightarrow> Inl AttributeError | Some x \<Rightarrow> Inr x)"

definition is_today :: "date \<Rightarrow> date option \<Rightarrow> exn + bool" where
  "is_today today_now d =
     (if d = None then Inr False
      else bind (date_of d) (\<lambda>x. Inr (x = today_now)))"

definition extract_text_from_image :: "site \<Rightarrow> exn + pystr" where
  "extract_text_from_image s =
     bind (ocr_prepared s) (\<lambda>_.
       case ocr_read s of
         Inr t \<Rightarrow> Inr t
       | Inl e \<Rightarrow> Inr [])"

definition scrape_menu :: "site \<Rightarrow> restaurant \<Rightarrow> exn + menu_record option" where
  "scrape_menu s r =
     (if \<not> truthy (page_html s) then Inr None
      else bind (image_url_found s) (\<lambda>image_url.
        case image_url of
          None \<Rightarrow> Inr None
        | Some u \<Rightarrow>
            if u = [] then Inr None
            else (case image_file s of
              None \<Rightarrow> Inr None
            | Some img \<Rightarrow>
                bind (if date_in_post r
                      then bind (post_title_found s) (\<lambda>post_title.
                             case post_title of
                               None \<Rightarrow> Inr None
                             | Some t \<Rightarrow>
                                 if t = [] then Inr None
                                 else parse_date (year_at_title s) t)
                      else Inr None) (\<lambda>title_date.
                bind (extract_text_from_image s) (\<lambda>ocr_text.
                bind (if \<not> date_in_post r \<or> title_date = None
                      then parse_date (year_at_ocr s) ocr_text
                      else Inr title_date) (\<lambda>menu_date.
                bind (is_today (today s) menu_date) (\<lambda>is_today_menu.
                Inr (Some \<lparr>rec_restaurant = name r,
                           rec_date = menu_date,
                           rec_is_today = is_today_menu,
                           rec_image_url = u,
                           rec_menu_text = ocr_text,
                           rec_image = img\<rparr>))))))))"

section \<open>The polling loop of \<open>main\<close>\<close>

text \<open>
  The inner loop over the restaurants: a result is appended when \<open>scrape_menu\<close> returns
  one; \<open>None\<close> and any exception (\<open>except Exception\<close>, logged) leave the list as
  it is.
\<close>

fun collect :: "(restaurant \<Rightarrow> site) \<Rightarrow> restaurant list \<Rightarrow> menu_record list \<Rightarrow> menu_record list" where
  "collect w [] results = results"
| "collect w (r # rs) results =
     (case scrape_menu (w r) r of
        Inr (Some result) \<Rightarrow> collect w rs (results @ [result])
      | Inr None \<Rightarrow> collect w rs results
      | Inl e \<Rightarrow> collect w rs results)"

text \<open>
  What a run does, in order: \<open>Attempted n results\<close> is the end of the inner loop of
  attempt \<open>n\<close> with the list it built, \<open>Slept\<close> is \<open>time.sleep\<close>, \<open>Notified\<close>
  is the call of \<open>send_menu_notification\<close> with its argument, \<open>NoData\<close> is the final
  error log, \<open>MissingCredentials\<close> the one of the start-up check.
\<close>

datatype event =
    Attempted nat "menu_record list"
  | Slept nat
  | Notified "menu_record list"
  | NoData
  | MissingCredentials

datatype terminal = Success | Exhausted

definition today_menus :: "menu_record list \<Rightarrow> menu_record list" where
  "today_menus results = filter rec_is_today results"

text \<open>
  The body of \<open>for attempt in range(1, MAX_RETRIES + 1)\<close>, over the attempt numbers still
  to come. \<open>results\<close> is set to the empty list at the start of every attempt. Both
  branches of the last attempt return; the loop is left without a terminal state only when
  the range is empty.
\<close>

fun attempts ::
  "(nat \<Rightarrow> restaurant \<Rightarrow> site) \<Rightarrow> restaurant list \<Rightarrow> nat \<Rightarrow> nat \<Rightarrow> nat list
     \<Rightarrow> event list \<times> terminal option" where
  "attempts w rs max_retries retry_interval [] = ([], None)"
| "attempts w rs max_retries retry_interval (attempt # later) =
     (let results = collect (w attempt) rs [] in
      if today_menus results \<noteq> []
      then ([Attempted attempt results, Notified results], Some Success)
      else if attempt < max_retries
      then (case attempts w rs max_retries retry_interval later of
              (evs, fin) \<Rightarrow> (Attempted attempt results # Slept retry_interval # evs, fin))
      else (Attempted attempt results # (if results \<noteq> [] then [Notified results] else [NoData]),
            Some Exhausted))"

definition poll ::
  "(nat \<Rightarrow> restaurant \<Rightarrow> site) \<Rightarrow> restaurant list \<Rightarrow> nat \<Rightarrow> nat
     \<Rightarrow> event list \<times> terminal option" where
  "poll w rs max_retries retry_interval =
     attempts w rs max_retries retry_interval [1 ..< max_retries + 1]"

definition restaurants :: "restaurant list" where
  "restaurants =
     [\<lparr>name = [50773, 51032, 48165, 49345],
       url = [104, 116, 116, 112, 115, 58, 47, 47, 112, 102, 46, 107, 97, 107, 97, 111, 46,
              99, 111, 109, 47, 95, 107, 83, 120, 108, 108, 110, 47, 112, 111, 115, 116, 115],
       channel_id = [95, 107, 83, 120, 108, 108, 110],
       date_in_post = True\<rparr>,
      \<lparr>name = [52265, 54620, 54620, 49885, 48596, 54168],
       url = [104, 116, 116, 112, 115, 58, 47, 47, 112, 102, 46, 107, 97, 107, 97, 111, 46,
              99, 111, 109, 47, 95, 120, 103, 80, 110, 110, 110, 47, 112, 111, 115, 116, 115],
       channel_id = [95, 120, 103, 80, 110, 110, 110],
       date_in_post = True\<rparr>,
      \<lparr>name = [50896, 53580, 51060, 48660],
       url = [104, 116, 116, 112, 115, 58, 47, 47, 112, 102, 46, 107, 97, 107, 97, 111, 46,
              99, 111, 109, 47, 95, 103, 86, 70, 77, 110],
       channel_id = [95, 103, 86, 70, 77, 110],
       date_in_post = False\<rparr>]"

definition MAX_RETRIES :: nat where "MAX_RETRIES = 6"
definition RETRY_INTERVAL :: nat where "RETRY_INTERVAL = 15 * 60"

record environ =
  SENDER_EMAIL :: "pystr option"
  SENDER_PASSWORD :: "pystr option"
  RECIPIENT_EMAIL :: "pystr option"

definition main ::
  "environ \<Rightarrow> (nat \<Rightarrow> restaurant \<Rightarrow> site) \<Rightarrow> event list \<times> terminal option" where
  "main env w =
     (if \<not> truthy (SENDER_EMAIL env) \<or> \<not> truthy (SENDER_PASSWORD env)
         \<or> \<not> truthy (RECIPIENT_EMAIL env)
      then ([MissingCredentials], None)
      else poll w restaurants MAX_RETRIES RETRY_INTERVAL)"

section \<open>The specification's notions\<close>

text \<open>
  The definitions of this section follow the words of the specification, not the source;
  the theorems compare them with the program.
\<close>

datatype origin = PostTitle | ImageOcr

text \<open>
  The candidate texts in priority order: with \<open>date_in_post\<close> the post title, when there
  is one, comes first; the OCR text is always the last candidate; without
  \<open>date_in_post\<close> the OCR text is the only one.
\<close>

definition candidates :: "restaurant \<Rightarrow> pystr option \<Rightarrow> pystr \<Rightarrow> (origin \<times> pystr) list" where
  "candidates r post_title ocr_text =
     (if date_in_post r
      then (case post_title of None \<Rightarrow> [] | Some t \<Rightarrow> [(PostTitle, t)])
      else [])
     @ [(ImageOcr, ocr_text)]"

text \<open>The date of the first candidate that resolves; absent when none does.\<close>

fun resolve_first :: "(origin \<Rightarrow> int) \<Rightarrow> (origin \<times> pystr) list \<Rightarrow> date option" where
  "resolve_first clock [] = None"
| "resolve_first clock ((orig, t) # rest) =
     (case parse_date (clock orig) t of
        Inr (Some d) \<Rightarrow> Some d
      | _ \<Rightarrow> resolve_first clock rest)"

text \<open>The calendar day after a date, to speak of dates one day off.\<close>

definition next_day :: "date \<Rightarrow> date" where
  "next_day d =
     (if day d < days_in_month (year d) (month d) then d\<lparr>day := day d + 1\<rparr>
      else if month d < 12 then \<lparr>year = year d, month = month d + 1, day = 1\<rparr>
      else \<lparr>year = year d + 1, month = 1, day = 1\<rparr>)"

text \<open>
  The aggregation the specification describes: for each restaurant the latest record any
  attempt up to \<open>n\<close> produced for it.
\<close>

fun latest_record :: "(nat \<Rightarrow> restaurant \<Rightarrow> site) \<Rightarrow> restaurant \<Rightarrow> nat \<Rightarrow> menu_record option" where
  "latest_record w r 0 = None"
| "latest_record w r (Suc n) =
     (case scrape_menu (w (Suc n) r) r of
        Inr (Some result) \<Rightarrow> Some result
      | _ \<Rightarrow> latest_record w r n)"

definition aggregated :: "(nat \<Rightarrow> restaurant \<Rightarrow> site) \<Rightarrow> restaurant list \<Rightarrow> nat \<Rightarrow> menu_record list" where
  "aggregated w rs n = List.map_filter (\<lambda>r. latest_record w r n) rs"

text \<open>
  What a site offers to the specification's resolver: the post title, absent when its
  extraction raised; the OCR text, empty when the read failed; the clock of each reading.
\<close>

definition title_text :: "site \<Rightarrow> pystr option" where
  "title_text s = (case post_title_found s of Inr t \<Rightarrow> t | Inl e \<Rightarrow> None)"

definition ocr_text_of :: "site \<Rightarrow> pystr" where
  "ocr_text_of s = (case ocr_read s of Inr t \<Rightarrow> t | Inl e \<Rightarrow> [])"

definition clock :: "site \<Rightarrow> origin \<Rightarrow> int" where
  "clock s orig = (case orig of PostTitle \<Rightarrow> year_at_title s | ImageOcr \<Rightarrow> year_at_ocr s)"

text \<open>What can be observed of a run: the attempts made, the notifications sent, the sleeps.\<close>

fun attempt_numbers :: "event list \<Rightarrow> nat list" where
  "attempt_numbers [] = []"
| "attempt_numbers (Attempted n results # evs) = n # attempt_numbers evs"
| "attempt_numbers (ev # evs) = attempt_numbers evs"

fun notifications :: "event list \<Rightarrow> menu_record list list" where
  "notifications [] = []"
| "notifications (Notified results # evs) = results # notifications evs"
| "notifications (ev # evs) = notifications evs"

fun sleeps :: "event list \<Rightarrow> nat" where
  "sleeps [] = 0"
| "sleeps (Slept seconds # evs) = Suc (sleeps evs)"
| "sleeps (ev # evs) = sleeps evs"

section \<open>Sample sites\<close>

text \<open>
  Sites for the examples, all read on 5 February 2026: a reachable page with a given post
  title and a given OCR outcome, and a page that cannot be fetched.
\<close>

definition ex_site :: "pystr option \<Rightarrow> exn + pystr \<Rightarrow> site" where
  "ex_site title ocr =
     \<lparr>page_html = Some [60, 104, 116, 109, 108, 62],
      image_url_found = Inr (Some [104, 116, 116, 112]),
      image_file = Some 7,
      post_title_found = Inr title,
      ocr_prepared = Inr (),
      ocr_read = ocr,
      year_at_title = 2026,
      year_at_ocr = 2026,
      today = \<lparr>year = 2026, month = 2, day = 5\<rparr>\<rparr>"

definition ex_site_down :: site where
  "ex_site_down = (ex_site None (Inr []))\<lparr>page_html := None\<rparr>"

definition ex_restaurant :: "pystr \<Rightarrow> bool \<Rightarrow> restaurant" where
  "ex_restaurant n in_post = \<lparr>name = n, url = [], channel_id = [], date_in_post = in_post\<rparr>"

text \<open>The record a reachable sample site yields, given its date and OCR text.\<close>

definition ex_record :: "pystr \<Rightarrow> date option \<Rightarrow> pystr \<Rightarrow> menu_record" where
  "ex_record n d t =
     \<lparr>rec_restaurant = n,
      rec_date = d,
      rec_is_today = (d = Some \<lparr>year = 2026, month = 2, day = 5\<rparr>),
      rec_image_url = [104, 116, 116, 112],
      rec_menu_text = t,
      rec_image = 7\<rparr>"

text \<open>
  A run with two restaurants \<open>A\<close> and \<open>B\<close>: on attempt 1, \<open>A\<close> shows yesterday's
  menu and \<open>B\<close> cannot be fetched; from attempt 2 on, \<open>A\<close> cannot be fetched and \<open>B\<close>
  shows today's menu.
\<close>

definition ex_world :: "nat \<Rightarrow> restaurant \<Rightarrow> site" where
  "ex_world n r =
     (if n = 1
      then (if name r = [65] then ex_site (Some [50, 47, 52]) (Inr []) else ex_site_down)
      else (if name r = [65] then ex_site_down else ex_site (Some [50, 47, 53]) (Inr [])))"

section \<open>Auxiliary notions of the proofs\<close>

text \<open>The bounds of the capturing groups of a pattern, in order.\<close>

primrec digit_specs :: "piece list \<Rightarrow> (nat \<times> nat) list" where
  "digit_specs [] = []"
| "digit_specs (p # ps) =
     (case p of Digits lo hi \<Rightarrow> (lo, hi) # digit_specs ps | _ \<Rightarrow> digit_specs ps)"

definition group_ok :: "nat \<times> nat \<Rightarrow> pystr \<Rightarrow> bool" where
  "group_ok b g = (fst b \<le> length g \<and> length g \<le> snd b \<and> list_all is_digit g)"

text \<open>
  An entry of the pattern list is harmless on a text when its constructor, applied to the
  match found there, returns a date or raises \<open>ValueError\<close>.
\<close>

definition ok_entry :: "pystr \<Rightarrow> piece list \<times> (pystr list \<Rightarrow> exn + date) \<Rightarrow> bool" where
  "ok_entry txt e =
     (\<forall>m. re_search (fst e) txt = Some m \<longrightarrow>
          snd e m = Inl ValueError \<or> (\<exists>x. snd e m = Inr x))"

section \<open>Lemmas on matching and date construction\<close>

lemma first_some_SomeD: "first_some f xs = Some y \<Longrightarrow> \<exists>x\<in>set xs. f x = Some y"
  by (induction xs) (auto split: option.splits)

lemma digit_value_less: "digit_value c = Some v \<Longrightarrow> v < 10"
  by (auto simp: digit_value_def find_Some_iff)

lemma ascii_digit_value: "48 \<le> c \<Longrightarrow> c < 58 \<Longrightarrow> digit_value c = Some (c - 48)"
  by (simp add: digit_value_def decimal_zeros_def)

lemma ascii_is_digit: "48 \<le> c \<Longrightarrow> c < 58 \<Longrightarrow> is_digit c"
  by (simp add: is_digit_def ascii_digit_value)

lemma below_digits: "c < 48 \<Longrightarrow> \<not> is_digit c"
  by (simp add: is_digit_def digit_value_def decimal_zeros_def)

lemma letters_no_digit: "58 \<le> c \<Longrightarrow> c < 1632 \<Longrightarrow> \<not> is_digit c"
  by (simp add: is_digit_def digit_value_def decimal_zeros_def)

lemma hangul_no_digit: "44026 \<le> c \<Longrightarrow> c < 65296 \<Longrightarrow> \<not> is_digit c"
  by (simp add: is_digit_def digit_value_def decimal_zeros_def)

lemma marks_no_digit [simp]:
  "\<not> is_digit ch_year" "\<not> is_digit ch_month" "\<not> is_digit ch_day"
  "\<not> is_digit ch_dot" "\<not> is_digit ch_slash"
  by (simp_all add: hangul_no_digit below_digits ch_year_def ch_month_def ch_day_def
      ch_dot_def ch_slash_def)

lemma gap_no_digit_a: "4250 \<le> c \<Longrightarrow> c < 6112 \<Longrightarrow> \<not> is_digit c"
  by (simp add: is_digit_def digit_value_def decimal_zeros_def)

lemma gap_no_digit_b: "7258 \<le> c \<Longrightarrow> c < 42528 \<Longrightarrow> \<not> is_digit c"
  by (simp add: is_digit_def digit_value_def decimal_zeros_def)

lemma space_ranges:
  "is_space c \<Longrightarrow>
     c < 48 \<or> (58 \<le> c \<and> c < 1632) \<or> (4250 \<le> c \<and> c < 6112) \<or> (7258 \<le> c \<and> c < 42528)"
  unfolding is_space_def space_chars_def by auto

lemma space_no_digit: "is_space c \<Longrightarrow> \<not> is_digit c"
  using space_ranges [of c] below_digits letters_no_digit gap_no_digit_a gap_no_digit_b
  by blast

lemma run_length_le: "run_length P t \<le> length t"
  by (simp add: run_length_def length_takeWhile_le)

lemma take_run:
  assumes "n \<le> run_length P t"
  shows "list_all P (take n t)" and "length (take n t) = n"
proof -
  have t: "t = takeWhile P t @ dropWhile P t" by simp
  have "take n t = take n (takeWhile P t @ dropWhile P t)" by simp
  also have "\<dots> = take n (takeWhile P t)"
    using assms by (simp add: run_length_def del: takeWhile_dropWhile_id)
  finally have eq: "take n t = take n (takeWhile P t)" .
  have "set (take n (takeWhile P t)) \<subseteq> set (takeWhile P t)" by (rule set_take_subset)
  then show "list_all P (take n t)"
    unfolding eq list_all_iff using set_takeWhileD by fastforce
  show "length (take n t) = n"
    using assms run_length_le [of P t] by simp
qed

lemma run_length_prefix:
  assumes "\<forall>c\<in>set a. P c" and "rest = [] \<or> \<not> P (hd rest)"
  shows "run_length P (a @ rest) = length a"
proof -
  have "takeWhile P rest = []" using assms(2) by (cases rest) auto
  then show ?thesis using assms(1) by (simp add: run_length_def takeWhile_append2)
qed

lemma match_here_Spaces:
  "match_here (Spaces # ps) t =
     first_some (\<lambda>n. match_here ps (drop n t)) (rev [0 ..< Suc (run_length is_space t)])"
  by simp

lemma match_here_Digits:
  "match_here (Digits lo hi # ps) t =
     first_some (\<lambda>n. map_option ((#) (take n t)) (match_here ps (drop n t)))
       (rev [lo ..< Suc (min hi (run_length is_digit t))])"
  by simp

lemma match_here_groups:
  "match_here ps t = Some gs \<Longrightarrow> list_all2 group_ok (digit_specs ps) gs"
proof (induction ps arbitrary: t gs)
  case Nil
  then show ?case by simp
next
  case (Cons p ps)
  show ?case
  proof (cases p)
    case (Lit c)
    with Cons.prems obtain xs where "match_here ps xs = Some gs"
      by (auto split: list.splits if_splits)
    with Cons.IH Lit show ?thesis by simp
  next
    case Spaces
    with Cons.prems have
      "first_some (\<lambda>n. match_here ps (drop n t)) (rev [0 ..< Suc (run_length is_space t)]) = Some gs"
      by (simp only: match_here_Spaces)
    then obtain n where "match_here ps (drop n t) = Some gs"
      by (blast dest: first_some_SomeD)
    with Cons.IH Spaces show ?thesis by simp
  next
    case (Digits lo hi)
    with Cons.prems have
      "first_some (\<lambda>n. map_option ((#) (take n t)) (match_here ps (drop n t)))
         (rev [lo ..< Suc (min hi (run_length is_digit t))]) = Some gs"
      by (simp only: match_here_Digits)
    then obtain n where n: "n \<in> set (rev [lo ..< Suc (min hi (run_length is_digit t))])"
      and m: "map_option ((#) (take n t)) (match_here ps (drop n t)) = Some gs"
      by (blast dest: first_some_SomeD)
    from m obtain gs' where gs': "match_here ps (drop n t) = Some gs'" "gs = take n t # gs'"
      by auto
    from n have b: "lo \<le> n" "n \<le> hi" "n \<le> run_length is_digit t" by auto
    have "group_ok (lo, hi) (take n t)"
      using take_run [OF b(3)] b(1,2) by (simp add: group_ok_def)
    with Cons.IH [OF gs'(1)] gs'(2) Digits show ?thesis by simp
  qed
qed

lemma re_search_here: "match_here ps t = Some m \<Longrightarrow> re_search ps t = Some m"
  by (cases t) simp_all

lemma re_search_SomeD: "re_search ps t = Some m \<Longrightarrow> \<exists>k. match_here ps (drop k t) = Some m"
proof (induction t)
  case Nil
  then show ?case by auto
next
  case (Cons x xs)
  show ?case
  proof (cases "match_here ps (x # xs)")
    case None
    with Cons obtain k where "match_here ps (drop k xs) = Some m" by auto
    then have "match_here ps (drop (Suc k) (x # xs)) = Some m" by simp
    then show ?thesis by blast
  next
    case (Some a)
    with Cons.prems have "match_here ps (drop 0 (x # xs)) = Some m" by simp
    then show ?thesis by blast
  qed
qed

lemma re_search_groups:
  "re_search ps t = Some gs \<Longrightarrow> list_all2 group_ok (digit_specs ps) gs"
  by (blast dest: re_search_SomeD match_here_groups)

lemma re_search_skip:
  "\<forall>i<length pre. match_here ps (drop i pre @ rest) = None \<Longrightarrow>
   re_search ps (pre @ rest) = re_search ps rest"
proof (induction pre)
  case Nil
  then show ?case by simp
next
  case (Cons x pre)
  from Cons.prems have "match_here ps (drop 0 (x # pre) @ rest) = None" by blast
  then have h: "match_here ps (x # pre @ rest) = None" by simp
  have "\<forall>i<length pre. match_here ps (drop i pre @ rest) = None"
  proof (intro allI impI)
    fix i assume "i < length pre"
    then have "Suc i < length (x # pre)" by simp
    with Cons.prems have "match_here ps (drop (Suc i) (x # pre) @ rest) = None" by blast
    then show "match_here ps (drop i pre @ rest) = None" by simp
  qed
  with Cons.IH h show ?case by simp
qed

lemma re_search_leftmost:
  assumes "k \<le> length t" and "match_here ps (drop k t) = Some m"
    and "\<forall>j<k. match_here ps (drop j t) = None"
  shows "re_search ps t = Some m"
proof -
  have "\<forall>i<length (take k t). match_here ps (drop i (take k t) @ drop k t) = None"
  proof (intro allI impI)
    fix i assume "i < length (take k t)"
    with assms(1) have i: "i < k" by simp
    have e: "i - length (take k t) = 0" using i assms(1) by simp
    have "drop i (take k t) @ drop k t = drop i (take k t @ drop k t)"
      by (simp only: drop_append e drop_0)
    also have "\<dots> = drop i t" by (simp only: append_take_drop_id)
    finally show "match_here ps (drop i (take k t) @ drop k t) = None"
      using assms(3) i by simp
  qed
  from re_search_skip [OF this] have "re_search ps t = re_search ps (drop k t)" by simp
  with re_search_here [OF assms(2)] show ?thesis by simp
qed

lemma match_digits_step:
  assumes "\<forall>c\<in>set g. is_digit c" and "lo \<le> length g" and "length g \<le> hi"
    and "rest = [] \<or> \<not> is_digit (hd rest)" and "match_here ps rest = Some gs"
  shows "match_here (Digits lo hi # ps) (g @ rest) = Some (g # gs)"
proof -
  have rl: "run_length is_digit (g @ rest) = length g"
    using assms(1,4) by (rule run_length_prefix)
  have "rev [lo ..< Suc (min hi (length g))] = length g # rev [lo ..< length g]"
    using assms(2,3) by (simp add: min_absorb2)
  then show ?thesis using assms(5) by (simp add: rl)
qed

lemma match_spaces_step:
  assumes "\<forall>c\<in>set ws. is_space c" and "rest = [] \<or> \<not> is_space (hd rest)"
    and "match_here ps rest = Some gs"
  shows "match_here (Spaces # ps) (ws @ rest) = Some gs"
proof -
  have rl: "run_length is_space (ws @ rest) = length ws"
    using assms(1,2) by (rule run_length_prefix)
  show ?thesis using assms(3) by (simp add: rl)
qed

lemma no_digit_no_match:
  assumes "\<forall>c\<in>set t. \<not> is_digit c" and "0 < lo"
  shows "match_here (Digits lo hi # ps) t = None"
proof -
  have "takeWhile is_digit t = []" using assms(1) by (cases t) auto
  then have "run_length is_digit t = 0" by (simp add: run_length_def)
  with assms(2) show ?thesis by simp
qed

lemma no_digit_no_search:
  "\<forall>c\<in>set t. \<not> is_digit c \<Longrightarrow> 0 < lo \<Longrightarrow> re_search (Digits lo hi # ps) t = None"
proof (induction t)
  case Nil
  then show ?case using no_digit_no_match [of "[]" lo hi ps] by simp
next
  case (Cons x xs)
  then show ?case using no_digit_no_match [of "x # xs" lo hi ps] by simp
qed

lemma four_digits_then:
  assumes "match_here (Digits 4 4 # Lit c # ps) t = Some m"
  shows "4 < length t \<and> t ! 4 = c"
proof -
  from assms have
    "first_some (\<lambda>n. map_option ((#) (take n t)) (match_here (Lit c # ps) (drop n t)))
       (rev [4 ..< Suc (min 4 (run_length is_digit t))]) = Some m"
    by (simp only: match_here_Digits)
  then obtain n where n: "n \<in> set (rev [4 ..< Suc (min 4 (run_length is_digit t))])"
    and m: "map_option ((#) (take n t)) (match_here (Lit c # ps) (drop n t)) = Some m"
    by (blast dest: first_some_SomeD)
  from n have "n = 4" by auto
  with m obtain xs where "drop 4 t = c # xs"
    by (auto split: list.splits if_splits)
  then have "drop 4 t \<noteq> []" "hd (drop 4 t) = c" by simp_all
  then show ?thesis by (simp add: hd_drop_conv_nth)
qed

lemma int_digits_ok:
  "list_all is_digit g \<Longrightarrow> 0 \<le> acc \<Longrightarrow>
   \<exists>v. int_digits acc g = Inr v \<and> 0 \<le> v \<and> v < (acc + 1) * 10 ^ length g"
proof (induction g arbitrary: acc)
  case Nil
  then show ?case by simp
next
  case (Cons c g)
  from Cons.prems(1) obtain d where d: "digit_value c = Some d"
    by (auto simp: is_digit_def)
  then have d10: "d < 10" by (rule digit_value_less)
  let ?a = "10 * acc + int d"
  from Cons.prems have "list_all is_digit g" "0 \<le> ?a" by simp_all
  from Cons.IH [OF this] obtain v where v: "int_digits ?a g = Inr v" "0 \<le> v"
    "v < (?a + 1) * 10 ^ length g" by blast
  have "?a + 1 \<le> (acc + 1) * 10" using d10 by simp
  then have "(?a + 1) * 10 ^ length g \<le> ((acc + 1) * 10) * 10 ^ length g"
    by (rule mult_right_mono) simp
  with v(3) have "v < ((acc + 1) * 10) * 10 ^ length g" by (rule less_le_trans)
  moreover have "((acc + 1) * 10) * 10 ^ length g = (acc + 1) * 10 ^ length (c # g)"
    by (simp only: length_Cons power_Suc mult.assoc)
  ultimately have "v < (acc + 1) * 10 ^ length (c # g)" by (simp only:)
  with v(1,2) d show ?case by simp
qed

lemma py_int_group:
  assumes "group_ok (lo, hi) g" and "0 < lo"
  shows "\<exists>v. py_int g = Inr v \<and> 0 \<le> v \<and> v < 10 ^ hi"
proof -
  from assms have g: "g \<noteq> []" "length g \<le> hi" "list_all is_digit g"
    by (auto simp: group_ok_def)
  from int_digits_ok [OF g(3), of 0] obtain v where v: "int_digits 0 g = Inr v" "0 \<le> v"
    "v < 10 ^ length g" by auto
  have "(10::int) ^ length g \<le> 10 ^ hi" using g(2) by (simp add: power_increasing)
  with v(3) have "v < 10 ^ hi" by (rule less_le_trans)
  with v(1,2) g(1) show ?thesis by (simp add: py_int_def)
qed

lemma datetime_new_cases:
  "fits_c_int y \<Longrightarrow> fits_c_int m \<Longrightarrow> fits_c_int d \<Longrightarrow>
   datetime_new y m d = Inl ValueError \<or> (\<exists>x. datetime_new y m d = Inr x)"
  by (simp add: datetime_new_def)

lemma small_fits: "0 \<le> v \<Longrightarrow> v < 10 ^ 4 \<Longrightarrow> fits_c_int v"
  by (simp add: fits_c_int_def)

lemma small_fits2: "0 \<le> v \<Longrightarrow> v < 10 ^ 2 \<Longrightarrow> fits_c_int v"
  by (simp add: fits_c_int_def)

lemma parser_full_cases:
  assumes "list_all2 group_ok [(4, 4), (1, 2), (1, 2)] m"
  shows "parser_full m = Inl ValueError \<or> (\<exists>x. parser_full m = Inr x)"
proof -
  from assms obtain a b c where m: "m = [a, b, c]"
    and g: "group_ok (4, 4) a" "group_ok (1, 2) b" "group_ok (1, 2) c"
    by (auto simp: list_all2_Cons1)
  from py_int_group [OF g(1)] obtain y where y: "py_int a = Inr y" "0 \<le> y" "y < 10 ^ 4" by auto
  from py_int_group [OF g(2)] obtain mo where mo: "py_int b = Inr mo" "0 \<le> mo" "mo < 10 ^ 2" by auto
  from py_int_group [OF g(3)] obtain d where d: "py_int c = Inr d" "0 \<le> d" "d < 10 ^ 2" by auto
  have "parser_full m = datetime_new y mo d"
    using m y(1) mo(1) d(1) by (simp add: parser_full_def group_def bind_def)
  with datetime_new_cases [OF small_fits [OF y(2,3)] small_fits2 [OF mo(2,3)] small_fits2 [OF d(2,3)]]
  show ?thesis by simp
qed

lemma parser_this_year_cases:
  assumes "list_all2 group_ok [(1, 2), (1, 2)] m" and "fits_c_int year_now"
  shows "parser_this_year year_now m = Inl ValueError \<or> (\<exists>x. parser_this_year year_now m = Inr x)"
proof -
  from assms obtain b c where m: "m = [b, c]"
    and g: "group_ok (1, 2) b" "group_ok (1, 2) c"
    by (auto simp: list_all2_Cons1)
  from py_int_group [OF g(1)] obtain mo where mo: "py_int b = Inr mo" "0 \<le> mo" "mo < 10 ^ 2" by auto
  from py_int_group [OF g(2)] obtain d where d: "py_int c = Inr d" "0 \<le> d" "d < 10 ^ 2" by auto
  have "parser_this_year year_now m = datetime_new year_now mo d"
    using m mo(1) d(1) by (simp add: parser_this_year_def group_def bind_def)
  with datetime_new_cases [OF assms(2) small_fits2 [OF mo(2,3)] small_fits2 [OF d(2,3)]]
  show ?thesis by simp
qed

lemma specs_full: "digit_specs pat_full = [(4, 4), (1, 2), (1, 2)]"
  by (simp add: pat_full_def)

lemma specs_month_day: "digit_specs pat_month_day = [(1, 2), (1, 2)]"
  by (simp add: pat_month_day_def)

lemma specs_dotted: "digit_specs pat_dotted = [(1, 2), (1, 2)]"
  by (simp add: pat_dotted_def)

lemma specs_slashed: "digit_specs pat_slashed = [(1, 2), (1, 2)]"
  by (simp add: pat_slashed_def)

lemma patterns_ok:
  assumes "fits_c_int year_now"
  shows "list_all (ok_entry txt) (patterns year_now)"
proof -
  have "ok_entry txt (pat_full, parser_full)"
    unfolding ok_entry_def using re_search_groups [of pat_full "txt"] parser_full_cases
    by (auto simp: specs_full)
  moreover have "ok_entry txt (pat_month_day, parser_this_year year_now)"
    unfolding ok_entry_def
    using re_search_groups [of pat_month_day "txt"] parser_this_year_cases [OF _ assms]
    by (auto simp: specs_month_day)
  moreover have "ok_entry txt (pat_dotted, parser_this_year year_now)"
    unfolding ok_entry_def
    using re_search_groups [of pat_dotted "txt"] parser_this_year_cases [OF _ assms]
    by (auto simp: specs_dotted)
  moreover have "ok_entry txt (pat_slashed, parser_this_year year_now)"
    unfolding ok_entry_def
    using re_search_groups [of pat_slashed "txt"] parser_this_year_cases [OF _ assms]
    by (auto simp: specs_slashed)
  ultimately show ?thesis by (simp add: patterns_def)
qed

lemma try_patterns_skip:
  assumes "ok_entry txt (pat, parser)" and "re_search pat txt = Some m"
    and "\<forall>d. parser m \<noteq> Inr d"
  shows "try_patterns ((pat, parser) # rest) txt = try_patterns rest txt"
proof -
  from assms have "parser m = Inl ValueError" by (auto simp: ok_entry_def)
  with assms(2) show ?thesis by simp
qed

lemma try_patterns_total:
  "list_all (ok_entry txt) ps \<Longrightarrow> \<exists>r. try_patterns ps txt = Inr r"
proof (induction ps)
  case Nil
  then show ?case by simp
next
  case (Cons e ps)
  obtain pat parser where e: "e = (pat, parser)" by (cases e)
  from Cons obtain r where r: "try_patterns ps txt = Inr r" by auto
  show ?case
  proof (cases "re_search pat txt")
    case None
    with r e show ?thesis by simp
  next
    case (Some m)
    with Cons.prems e have "parser m = Inl ValueError \<or> (\<exists>x. parser m = Inr x)"
      by (auto simp: ok_entry_def)
    with Some r e show ?thesis by auto
  qed
qed

lemma parse_date_total_aux: "fits_c_int year_now \<Longrightarrow> \<exists>r. parse_date year_now txt = Inr r"
  unfolding parse_date_def by (rule try_patterns_total, rule patterns_ok)

lemma year_fits: "1 \<le> y \<Longrightarrow> y \<le> 9999 \<Longrightarrow> fits_c_int y"
  by (simp add: fits_c_int_def)

lemma no_digit_all_fail:
  assumes "\<forall>c\<in>set txt. \<not> is_digit c"
  shows "re_search pat_full txt = None" "re_search pat_month_day txt = None"
    "re_search pat_dotted txt = None" "re_search pat_slashed txt = None"
  using no_digit_no_search [OF assms]
  by (simp_all add: pat_full_def pat_month_day_def pat_dotted_def pat_slashed_def)

lemma all_fail_None:
  assumes "re_search pat_full txt = None" "re_search pat_month_day txt = None"
    "re_search pat_dotted txt = None" "re_search pat_slashed txt = None"
  shows "parse_date year_now txt = Inr None"
  using assms by (simp add: parse_date_def patterns_def)

lemma parse_date_no_digit: "\<forall>c\<in>set txt. \<not> is_digit c \<Longrightarrow> parse_date year_now txt = Inr None"
  by (intro all_fail_None no_digit_all_fail)

lemma parse_date_empty: "parse_date year_now [] = Inr None"
  by (rule parse_date_no_digit) simp

lemma datetime_new_valid:
  "1 \<le> y \<Longrightarrow> y \<le> 9999 \<Longrightarrow> 1 \<le> m \<Longrightarrow> m \<le> 12 \<Longrightarrow> 1 \<le> d \<Longrightarrow> d \<le> days_in_month y m \<Longrightarrow>
   datetime_new y m d = Inr \<lparr>year = y, month = m, day = d\<rparr>"
  by (auto simp: datetime_new_def fits_c_int_def days_in_month_def split: if_splits)

lemma datetime_new_fields:
  "datetime_new y m d = Inr x \<Longrightarrow> year x = y \<and> month x = m \<and> day x = d"
  by (auto simp: datetime_new_def split: if_splits)

lemma parser_this_year_year: "parser_this_year year_now m = Inr x \<Longrightarrow> year x = year_now"
  by (auto simp: parser_this_year_def bind_def dest: datetime_new_fields split: sum.splits)

lemma match_here_Lit_hit: "match_here (Lit c # ps) (c # xs) = match_here ps xs"
  by simp

lemma digit_head_no_space:
  assumes "1 \<le> length g" and "list_all is_digit g"
  shows "g @ rest = [] \<or> \<not> is_space (hd (g @ rest))"
proof -
  from assms obtain c cs where "g = c # cs" "is_digit c" by (cases g) auto
  then show ?thesis using space_no_digit by auto
qed

lemma full_date_here:
  assumes Y: "length Y = 4" "list_all is_digit Y"
    and M: "1 \<le> length M" "length M \<le> 2" "list_all is_digit M"
    and D: "1 \<le> length D" "length D \<le> 2" "list_all is_digit D"
    and W: "list_all is_space ws1" "list_all is_space ws2"
  shows "match_here pat_full (Y @ ch_year # ws1 @ M @ ch_month # ws2 @ D @ ch_day # post)
           = Some [Y, M, D]"
proof -
  let ?p6 = "[Lit ch_day]"
  let ?p5 = "Digits 1 2 # ?p6"
  let ?p4 = "Spaces # ?p5"
  let ?p3 = "Lit ch_month # ?p4"
  let ?p2 = "Digits 1 2 # ?p3"
  let ?p1 = "Spaces # ?p2"
  let ?p0 = "Lit ch_year # ?p1"
  let ?t5 = "D @ ch_day # post"
  let ?t2 = "M @ ch_month # ws2 @ ?t5"
  have dY: "\<forall>c\<in>set Y. is_digit c" and dM: "\<forall>c\<in>set M. is_digit c"
    and dD: "\<forall>c\<in>set D. is_digit c"
    using Y(2) M(3) D(3) by (simp_all add: list_all_iff)
  have w1: "\<forall>c\<in>set ws1. is_space c" and w2: "\<forall>c\<in>set ws2. is_space c"
    using W by (simp_all add: list_all_iff)
  have s6: "match_here ?p6 (ch_day # post) = Some []" by simp
  have s5: "match_here ?p5 ?t5 = Some [D]"
    by (rule match_digits_step [OF dD D(1) D(2) _ s6]) simp
  have h5: "?t5 = [] \<or> \<not> is_space (hd ?t5)"
    by (rule digit_head_no_space [OF D(1,3)])
  have s4: "match_here ?p4 (ws2 @ ?t5) = Some [D]"
    by (rule match_spaces_step [OF w2 h5 s5])
  have s3: "match_here ?p3 (ch_month # ws2 @ ?t5) = Some [D]"
    using s4 by (simp only: match_here_Lit_hit)
  have s2: "match_here ?p2 ?t2 = Some [M, D]"
    by (rule match_digits_step [OF dM M(1) M(2) _ s3]) simp
  have h2: "?t2 = [] \<or> \<not> is_space (hd ?t2)"
    by (rule digit_head_no_space [OF M(1,3)])
  have s1: "match_here ?p1 (ws1 @ ?t2) = Some [M, D]"
    by (rule match_spaces_step [OF w1 h2 s2])
  have s0: "match_here ?p0 (ch_year # ws1 @ ?t2) = Some [M, D]"
    using s1 by (simp only: match_here_Lit_hit)
  have "4 \<le> length Y" "length Y \<le> 4" using Y(1) by simp_all
  then have "match_here (Digits 4 4 # ?p0) (Y @ ch_year # ws1 @ ?t2) = Some [Y, M, D]"
    by (rule match_digits_step [OF dY _ _ _ s0]) simp
  then show ?thesis by (simp only: pat_full_def)
qed

lemma no_full_before:
  assumes "ch_year \<notin> set pre" and "list_all is_digit Y" and "length Y = 4"
    and "i < length pre"
  shows "match_here pat_full (drop i (pre @ Y @ ch_year # rest)) = None"
proof (rule ccontr)
  let ?p = "drop i pre"
  let ?t = "?p @ Y @ ch_year # rest"
  assume "match_here pat_full (drop i (pre @ Y @ ch_year # rest)) \<noteq> None"
  then obtain m where "match_here pat_full (drop i (pre @ Y @ ch_year # rest)) = Some m" by auto
  with assms(4) have "match_here pat_full ?t = Some m" by simp
  then have "?t ! 4 = ch_year"
    using four_digits_then [of ch_year _ ?t m] by (simp only: pat_full_def)
  moreover have "?t ! 4 \<noteq> ch_year"
  proof (cases "4 < length ?p")
    case True
    then have "?t ! 4 = ?p ! 4" by (simp add: nth_append)
    moreover have "?p ! 4 \<in> set ?p" using True by (rule nth_mem)
    moreover have "set ?p \<subseteq> set pre" by (rule set_drop_subset)
    ultimately show ?thesis using assms(1) by auto
  next
    case False
    from assms(4) have "1 \<le> length ?p" by simp
    with False assms(3) have lt: "4 - length ?p < length Y" by simp
    with False have "?t ! 4 = Y ! (4 - length ?p)" by (simp add: nth_append)
    moreover have "is_digit (Y ! (4 - length ?p))"
      using assms(2) lt by (simp add: list_all_length)
    ultimately show ?thesis using marks_no_digit(1) by metis
  qed
  ultimately show False by simp
qed

lemma parse_full_first:
  "re_search pat_full txt = Some m \<Longrightarrow> parser_full m = Inr x \<Longrightarrow>
   parse_date year_now txt = Inr (Some x)"
  by (simp add: parse_date_def patterns_def)

lemma full_date_resolves:
  assumes Y: "length Y = 4" "list_all is_digit Y"
    and M: "1 \<le> length M" "length M \<le> 2" "list_all is_digit M"
    and D: "1 \<le> length D" "length D \<le> 2" "list_all is_digit D"
    and W: "list_all is_space ws1" "list_all is_space ws2"
    and tx: "txt = pre @ Y @ ch_year # ws1 @ M @ ch_month # ws2 @ D @ ch_day # post"
    and first: "\<forall>i<length pre. match_here pat_full (drop i txt) = None"
    and vals: "py_int Y = Inr y" "py_int M = Inr m" "py_int D = Inr d"
    and valid: "1 \<le> y" "1 \<le> m" "m \<le> 12" "1 \<le> d" "d \<le> days_in_month y m"
  shows "parse_date year_now txt = Inr (Some \<lparr>year = y, month = m, day = d\<rparr>)"
proof -
  let ?rest = "Y @ ch_year # ws1 @ M @ ch_month # ws2 @ D @ ch_day # post"
  have here: "match_here pat_full ?rest = Some [Y, M, D]"
    using Y M D W by (rule full_date_here)
  have "re_search pat_full txt = Some [Y, M, D]"
  proof (rule re_search_leftmost [where k = "length pre"])
    show "length pre \<le> length txt" by (simp add: tx)
    show "match_here pat_full (drop (length pre) txt) = Some [Y, M, D]"
      using here by (simp add: tx)
    show "\<forall>j<length pre. match_here pat_full (drop j txt) = None" by (rule first)
  qed
  moreover have "y < 10 ^ 4"
    using py_int_group [of 4 4 Y] Y vals(1) by (auto simp: group_ok_def)
  then have "datetime_new y m d = Inr \<lparr>year = y, month = m, day = d\<rparr>"
    using valid by (intro datetime_new_valid) simp_all
  then have "parser_full [Y, M, D] = Inr \<lparr>year = y, month = m, day = d\<rparr>"
    using vals by (simp add: parser_full_def group_def bind_def)
  ultimately show ?thesis by (rule parse_full_first)
qed

lemma current_year_when_no_full:
  assumes "re_search pat_full txt = None" and "parse_date year_now txt = Inr (Some x)"
  shows "year x = year_now"
  using assms
  by (auto simp: parse_date_def patterns_def dest: parser_this_year_year
      split: option.splits sum.splits exn.splits)

lemmas eval_chars = ascii_is_digit below_digits letters_no_digit hangul_no_digit
  ch_year_def ch_month_def ch_day_def ch_dot_def ch_slash_def run_length_def
  is_space_def space_chars_def

lemmas eval_pats = pat_full_def pat_month_day_def pat_dotted_def pat_slashed_def

lemmas eval_parse = parse_date_def patterns_def eval_pats eval_chars parser_this_year_def
  parser_full_def group_def bind_def py_int_def ascii_digit_value datetime_new_def
  fits_c_int_def days_in_month_def is_leap_def

section \<open>Lemmas on scraping and polling\<close>

lemma is_today_eq: "is_today t d = Inr (d = Some t)"
  by (cases d) (simp_all add: is_today_def date_of_def bind_def)

lemma next_day_neq: "next_day d \<noteq> d"
proof
  assume e: "next_day d = d"
  then have "day (next_day d) = day d" "month (next_day d) = month d"
    "year (next_day d) = year d" by simp_all
  then show False by (simp add: next_day_def split: if_splits)
qed

lemma collect_acc: "collect w rs acc = acc @ collect w rs []"
proof (induction rs arbitrary: acc)
  case Nil
  then show ?case by simp
next
  case (Cons r rs)
  show ?case
    using Cons.IH [of "acc @ [x]" for x] Cons.IH [of "[x]" for x] Cons.IH [of acc]
    by (simp split: sum.splits option.splits)
qed

lemma collect_append: "collect w (xs @ ys) acc = collect w ys (collect w xs acc)"
  by (induction xs arbitrary: acc) (simp_all split: sum.splits option.splits)

lemma collect_skip:
  "\<forall>x. scrape_menu (w r) r \<noteq> Inr (Some x) \<Longrightarrow> collect w (r # rs) acc = collect w rs acc"
  by (simp split: sum.splits option.splits)

lemma collect_map_filter:
  "collect w rs [] =
     List.map_filter (\<lambda>r. case scrape_menu (w r) r of Inr (Some x) \<Rightarrow> Some x | _ \<Rightarrow> None) rs"
proof (induction rs)
  case Nil
  then show ?case by (simp add: List.map_filter_simps)
next
  case (Cons r rs)
  then show ?case
    using collect_acc [of w rs "[x]" for x]
    by (simp add: List.map_filter_simps split: sum.splits option.splits)
qed

lemma today_menus_empty_iff: "today_menus xs = [] \<longleftrightarrow> (\<forall>x\<in>set xs. \<not> rec_is_today x)"
  by (simp add: today_menus_def filter_empty_conv)

lemma scrape_menu_SomeD:
  assumes "scrape_menu s r = Inr (Some x)"
  shows "\<exists>u img title_date ocr.
     truthy (page_html s) \<and> image_url_found s = Inr (Some u) \<and> u \<noteq> [] \<and> image_file s = Some img
     \<and> (if date_in_post r
         then bind (post_title_found s) (\<lambda>post_title.
                case post_title of None \<Rightarrow> Inr None
                | Some t \<Rightarrow> if t = [] then Inr None else parse_date (year_at_title s) t)
         else Inr None) = Inr title_date
     \<and> extract_text_from_image s = Inr ocr
     \<and> (if \<not> date_in_post r \<or> title_date = None then parse_date (year_at_ocr s) ocr
         else Inr title_date) = Inr (rec_date x)
     \<and> x = \<lparr>rec_restaurant = name r, rec_date = rec_date x,
             rec_is_today = (rec_date x = Some (today s)),
             rec_image_url = u, rec_menu_text = ocr, rec_image = img\<rparr>"
proof -
  from assms have p: "truthy (page_html s)"
    by (simp add: scrape_menu_def split: if_splits)
  with assms obtain iu where iu: "image_url_found s = Inr iu"
    by (cases "image_url_found s") (simp_all add: scrape_menu_def bind_def)
  with assms p obtain u where u: "iu = Some u" "u \<noteq> []"
    by (cases iu) (simp_all add: scrape_menu_def bind_def split: if_splits)
  with assms p iu obtain img where img: "image_file s = Some img"
    by (cases "image_file s") (simp_all add: scrape_menu_def bind_def)
  let ?title = "if date_in_post r
         then bind (post_title_found s) (\<lambda>post_title.
                case post_title of None \<Rightarrow> Inr None
                | Some t \<Rightarrow> if t = [] then Inr None else parse_date (year_at_title s) t)
         else Inr None"
  from assms p iu u img obtain td where td: "?title = Inr td"
    by (cases ?title) (simp_all add: scrape_menu_def bind_def)
  from assms p iu u img td obtain ocr where ocr: "extract_text_from_image s = Inr ocr"
    by (cases "extract_text_from_image s") (simp_all add: scrape_menu_def bind_def)
  let ?date = "if \<not> date_in_post r \<or> td = None then parse_date (year_at_ocr s) ocr else Inr td"
  from assms p iu u img td ocr obtain md where md: "?date = Inr md"
    by (cases ?date) (simp_all add: scrape_menu_def bind_def)
  from assms p iu u img td ocr md
  have x: "x = \<lparr>rec_restaurant = name r, rec_date = md, rec_is_today = (md = Some (today s)),
             rec_image_url = u, rec_menu_text = ocr, rec_image = img\<rparr>"
    by (simp add: scrape_menu_def bind_def is_today_eq)
  then have "rec_date x = md" by simp
  with p iu u img td ocr md x show ?thesis by simp
qed

lemma extract_text_cases:
  "extract_text_from_image s = Inr t \<Longrightarrow> t = ocr_text_of s"
  by (auto simp: extract_text_from_image_def ocr_text_of_def bind_def split: sum.splits)

lemma parse_slash_today:
  "parse_date 2026 [50, 47, 53] = Inr (Some \<lparr>year = 2026, month = 2, day = 5\<rparr>)"
  by (simp add: eval_parse)

lemma parse_slash_yesterday:
  "parse_date 2026 [50, 47, 52] = Inr (Some \<lparr>year = 2026, month = 2, day = 4\<rparr>)"
  by (simp add: eval_parse)

lemma scrape_ex_today:
  "scrape_menu (ex_site (Some [50, 47, 53]) ocr) (ex_restaurant n True)
     = Inr (Some (ex_record n (Some \<lparr>year = 2026, month = 2, day = 5\<rparr>)
                    (case ocr of Inr t \<Rightarrow> t | Inl e \<Rightarrow> [])))"
  by (cases ocr)
     (simp_all add: scrape_menu_def ex_site_def ex_restaurant_def ex_record_def truthy_def
        bind_def extract_text_from_image_def is_today_eq parse_slash_today)

lemma scrape_ex_stale:
  "scrape_menu (ex_site (Some [50, 47, 52]) ocr) (ex_restaurant n True)
     = Inr (Some (ex_record n (Some \<lparr>year = 2026, month = 2, day = 4\<rparr>)
                    (case ocr of Inr t \<Rightarrow> t | Inl e \<Rightarrow> [])))"
  by (cases ocr)
     (simp_all add: scrape_menu_def ex_site_def ex_restaurant_def ex_record_def truthy_def
        bind_def extract_text_from_image_def is_today_eq parse_slash_yesterday)

lemma scrape_ex_down: "scrape_menu ex_site_down r = Inr None"
  by (simp add: scrape_menu_def ex_site_down_def ex_site_def truthy_def)

lemma ex_record_flag:
  "rec_is_today (ex_record n d t) = (d = Some \<lparr>year = 2026, month = 2, day = 5\<rparr>)"
  by (simp add: ex_record_def)

lemma attempts_quiet_prefix:
  assumes "\<forall>j\<in>set pre. today_menus (collect (w j) rs []) = [] \<and> j < mx"
  shows "attempts w rs mx iv (pre @ rest) =
     (concat (map (\<lambda>j. [Attempted j (collect (w j) rs []), Slept iv]) pre)
        @ fst (attempts w rs mx iv rest),
      snd (attempts w rs mx iv rest))"
  using assms by (induction pre) (simp_all add: Let_def split: prod.splits)

lemma upt_split:
  assumes "1 \<le> k" and "k \<le> mx"
  shows "[1 ..< mx + 1] = [1 ..< k] @ k # [Suc k ..< mx + 1]"
proof -
  from assms have "[1 ..< mx + 1] = [1 ..< k] @ [k ..< mx + 1]"
    using upt_add_eq_append [of 1 k "mx + 1 - k"] by simp
  also have "[k ..< mx + 1] = k # [Suc k ..< mx + 1]"
    using assms by (simp add: upt_conv_Cons)
  finally show ?thesis .
qed

lemma attempts_events:
  "Attempted n res \<in> set (fst (attempts w rs mx iv ns)) \<Longrightarrow>
   n \<in> set ns \<and> res = collect (w n) rs []"
proof (induction ns)
  case Nil
  then show ?case by simp
next
  case (Cons a ns)
  show ?case
  proof (cases "today_menus (collect (w a) rs []) \<noteq> []")
    case True
    with Cons.prems show ?thesis by (auto simp: Let_def)
  next
    case quiet: False
    show ?thesis
    proof (cases "a < mx")
      case True
      with quiet Cons.prems
      have "(n = a \<and> res = collect (w a) rs [])
          \<or> Attempted n res \<in> set (fst (attempts w rs mx iv ns))"
        by (auto simp: Let_def split: prod.splits)
      with Cons.IH show ?thesis by auto
    next
      case False
      with quiet Cons.prems show ?thesis by (auto simp: Let_def split: if_splits)
    qed
  qed
qed

lemma attempts_notified:
  "Notified res \<in> set (fst (attempts w rs mx iv ns)) \<Longrightarrow>
   \<exists>n pre. fst (attempts w rs mx iv ns) = pre @ [Attempted n res, Notified res]
     \<and> n \<in> set ns \<and> res = collect (w n) rs []"
proof (induction ns)
  case Nil
  then show ?case by simp
next
  case (Cons a ns)
  let ?res = "collect (w a) rs []"
  show ?case
  proof (cases "today_menus ?res \<noteq> []")
    case True
    with Cons.prems have "res = ?res"
      and "fst (attempts w rs mx iv (a # ns)) = [] @ [Attempted a res, Notified res]"
      by (auto simp: Let_def)
    then show ?thesis by (intro exI [of _ a] exI [of _ "[]"]) simp
  next
    case quiet: False
    show ?thesis
    proof (cases "a < mx")
      case True
      with quiet have ev: "fst (attempts w rs mx iv (a # ns))
          = Attempted a ?res # Slept iv # fst (attempts w rs mx iv ns)"
        by (simp add: Let_def split: prod.splits)
      with Cons.prems have "Notified res \<in> set (fst (attempts w rs mx iv ns))" by simp
      from Cons.IH [OF this] obtain n pre where
        "fst (attempts w rs mx iv ns) = pre @ [Attempted n res, Notified res]"
        "n \<in> set ns" "res = collect (w n) rs []" by blast
      with ev show ?thesis
        by (intro exI [of _ n] exI [of _ "Attempted a ?res # Slept iv # pre"]) simp
    next
      case False
      with quiet Cons.prems have "res = ?res"
        and "fst (attempts w rs mx iv (a # ns)) = [] @ [Attempted a res, Notified res]"
        by (auto simp: Let_def split: if_splits)
      then show ?thesis by (intro exI [of _ a] exI [of _ "[]"]) simp
    qed
  qed
qed

lemma observe_quiet:
  "attempt_numbers (concat (map (\<lambda>j. [Attempted j (f j), Slept iv]) ns) @ evs)
     = ns @ attempt_numbers evs"
  "notifications (concat (map (\<lambda>j. [Attempted j (f j), Slept iv]) ns) @ evs)
     = notifications evs"
  "sleeps (concat (map (\<lambda>j. [Attempted j (f j), Slept iv]) ns) @ evs)
     = length ns + sleeps evs"
  by (induction ns) simp_all

lemma ex_world_values:
  "ex_world 1 (ex_restaurant [65] b) = ex_site (Some [50, 47, 52]) (Inr [])"
  "ex_world 1 (ex_restaurant [66] b) = ex_site_down"
  "ex_world (Suc 0) (ex_restaurant [65] b) = ex_site (Some [50, 47, 52]) (Inr [])"
  "ex_world (Suc 0) (ex_restaurant [66] b) = ex_site_down"
  "ex_world 2 (ex_restaurant [65] b) = ex_site_down"
  "ex_world 2 (ex_restaurant [66] b) = ex_site (Some [50, 47, 53]) (Inr [])"
  by (simp_all add: ex_world_def ex_restaurant_def)

lemma ex_world_collect:
  "collect (ex_world 1) [ex_restaurant [65] True, ex_restaurant [66] True] []
     = [ex_record [65] (Some \<lparr>year = 2026, month = 2, day = 4\<rparr>) []]"
  "collect (ex_world 2) [ex_restaurant [65] True, ex_restaurant [66] True] []
     = [ex_record [66] (Some \<lparr>year = 2026, month = 2, day = 5\<rparr>) []]"
  by (simp_all add: ex_world_values scrape_ex_stale scrape_ex_today scrape_ex_down)

lemma ex_today_menus:
  "today_menus [ex_record [65] (Some \<lparr>year = 2026, month = 2, day = 4\<rparr>) []] = []"
  "today_menus [ex_record [66] (Some \<lparr>year = 2026, month = 2, day = 5\<rparr>) []]
     = [ex_record [66] (Some \<lparr>year = 2026, month = 2, day = 5\<rparr>) []]"
  "today_menus [] = []"
  by (simp_all add: today_menus_def ex_record_flag)

lemma small_ranges:
  "[1 ..< (2::nat)] = [1]" "[1 ..< (2::nat) + 1] = [1, 2]"
  by (simp_all add: eval_nat_numeral)

lemma ex_poll_two:
  "poll ex_world [ex_restaurant [65] True, ex_restaurant [66] True] 2 900
     = ([Attempted 1 [ex_record [65] (Some \<lparr>year = 2026, month = 2, day = 4\<rparr>) []],
         Slept 900,
         Attempted 2 [ex_record [66] (Some \<lparr>year = 2026, month = 2, day = 5\<rparr>) []],
         Notified [ex_record [66] (Some \<lparr>year = 2026, month = 2, day = 5\<rparr>) []]],
        Some Success)"
  unfolding poll_def small_ranges
  by (simp add: Let_def ex_world_collect ex_world_collect [unfolded One_nat_def] ex_today_menus
      del: collect.simps)

lemma main_is_poll:
  "truthy (SENDER_EMAIL env) \<Longrightarrow> truthy (SENDER_PASSWORD env) \<Longrightarrow> truthy (RECIPIENT_EMAIL env) \<Longrightarrow>
   main env w = poll w restaurants 6 900"
  by (simp add: main_def MAX_RETRIES_def RETRY_INTERVAL_def)

section \<open>Date resolution\<close>

text \<open>
  Claim C5, as stated, fails: a text may contain a full date with valid fields and still
  not resolve to it. In the text \<open>2026\<close>\<^emph>\<open>Y\<close> \<open>2\<close>\<^emph>\<open>M\<close> \<open>30\<close>\<^emph>\<open>D\<close> \<open>2026\<close>\<^emph>\<open>Y\<close> \<open>2\<close>\<^emph>\<open>M\<close> \<open>5\<close>\<^emph>\<open>D\<close>
  (\<^emph>\<open>Y\<close>, \<^emph>\<open>M\<close>, \<^emph>\<open>D\<close> standing for the three Hangul marks) the leftmost full date is
  30 February, its construction fails, the month-day pattern then finds the same
  30 February, and \<open>parse_date\<close> returns \<open>None\<close>; the second half of the text alone
  resolves to 5 February 2026.
\<close>

theorem full_date_counterexample:
  "parse_date 2026
     ([50, 48, 50, 54, 45380, 32, 50, 50900, 32, 51, 48, 51068, 32]
      @ [50, 48, 50, 54, 45380, 32, 50, 50900, 32, 53, 51068]) = Inr None
   \<and> parse_date 2026 [50, 48, 50, 54, 45380, 32, 50, 50900, 32, 53, 51068]
       = Inr (Some \<lparr>year = 2026, month = 2, day = 5\<rparr>)"
  by (simp add: eval_parse)

text \<open>
  Claim C5, amended. A text that contains a full date (four digits, the year mark,
  blanks, one or two digits, the month mark, blanks, one or two digits, the day mark) with
  calendar-valid fields resolves to exactly that date, whatever the current year and
  whatever surrounds it, provided the full-date pattern matches at no earlier position of
  the text; this is so in particular when no year mark stands before the date. When the
  full-date pattern matches nowhere, every date returned carries the current year, and
  the month-day pattern is consulted before the dotted one, the dotted one before the
  slashed one.
\<close>

theorem full_date_and_current_year:
  "(length Y = 4 \<and> list_all is_digit Y
      \<and> 1 \<le> length M \<and> length M \<le> 2 \<and> list_all is_digit M
      \<and> 1 \<le> length D \<and> length D \<le> 2 \<and> list_all is_digit D
      \<and> list_all is_space ws1 \<and> list_all is_space ws2
      \<and> inp = pre @ Y @ ch_year # ws1 @ M @ ch_month # ws2 @ D @ ch_day # post
      \<and> (ch_year \<notin> set pre \<or> (\<forall>i<length pre. match_here pat_full (drop i inp) = None))
      \<and> py_int Y = Inr y \<and> py_int M = Inr m \<and> py_int D = Inr d
      \<and> 1 \<le> y \<and> 1 \<le> m \<and> m \<le> 12 \<and> 1 \<le> d \<and> d \<le> days_in_month y m
    \<longrightarrow> parse_date yn inp = Inr (Some \<lparr>year = y, month = m, day = d\<rparr>))
   \<and> (re_search pat_full inp2 = None \<and> parse_date yn inp2 = Inr (Some x)
        \<longrightarrow> year x = yn)
   \<and> (re_search pat_full inp2 = None \<and> re_search pat_month_day inp2 = Some g
        \<and> parser_this_year yn g = Inr x
        \<longrightarrow> parse_date yn inp2 = Inr (Some x))
   \<and> (re_search pat_full inp2 = None \<and> re_search pat_month_day inp2 = None
        \<and> re_search pat_dotted inp2 = Some g \<and> parser_this_year yn g = Inr x
        \<longrightarrow> parse_date yn inp2 = Inr (Some x))"
proof (intro conjI impI; (elim conjE)?)
  assume Y: "length Y = 4" "list_all is_digit Y"
    and M: "1 \<le> length M" "length M \<le> 2" "list_all is_digit M"
    and D: "1 \<le> length D" "length D \<le> 2" "list_all is_digit D"
    and W: "list_all is_space ws1" "list_all is_space ws2"
    and tx: "inp = pre @ Y @ ch_year # ws1 @ M @ ch_month # ws2 @ D @ ch_day # post"
    and disj: "ch_year \<notin> set pre \<or> (\<forall>i<length pre. match_here pat_full (drop i inp) = None)"
    and vals: "py_int Y = Inr y" "py_int M = Inr m" "py_int D = Inr d"
    and valid: "1 \<le> y" "1 \<le> m" "m \<le> 12" "1 \<le> d" "d \<le> days_in_month y m"
  have first: "\<forall>i<length pre. match_here pat_full (drop i inp) = None"
  proof (cases "ch_year \<in> set pre")
    case True
    with disj show ?thesis by (simp only: not_True_eq_False simp_thms)
  next
    case False
    show ?thesis unfolding tx
    proof (intro allI impI)
      fix i assume "i < length pre"
      with False Y(2) Y(1)
      show "match_here pat_full
              (drop i (pre @ Y @ ch_year # ws1 @ M @ ch_month # ws2 @ D @ ch_day # post)) = None"
        by (rule no_full_before)
    qed
  qed
  show "parse_date yn inp = Inr (Some \<lparr>year = y, month = m, day = d\<rparr>)"
    by (rule full_date_resolves [OF Y M D W tx first vals valid])
next
  assume "re_search pat_full inp2 = None" and "parse_date yn inp2 = Inr (Some x)"
  then show "year x = yn" by (rule current_year_when_no_full)
next
  assume "re_search pat_full inp2 = None" and "re_search pat_month_day inp2 = Some g"
    and "parser_this_year yn g = Inr x"
  then show "parse_date yn inp2 = Inr (Some x)"
    by (simp add: parse_date_def patterns_def)
next
  assume "re_search pat_full inp2 = None" and "re_search pat_month_day inp2 = None"
    and "re_search pat_dotted inp2 = Some g" and "parser_this_year yn g = Inr x"
  then show "parse_date yn inp2 = Inr (Some x)"
    by (simp add: parse_date_def patterns_def)
qed

text \<open>
  The theorem at two texts, read in 2027: a menu title carrying the full date
  5 February 2026 between other words, and the bare month-day text of 5 February.
\<close>

theorem full_date_and_current_year_witness:
  "parse_date 2027
     [47700, 45684, 32, 50, 48, 50, 54, 45380, 32, 48, 50, 50900, 32, 48, 53, 51068,
      32, 51216, 49900]
     = Inr (Some \<lparr>year = 2026, month = 2, day = 5\<rparr>)
   \<and> re_search pat_full [50, 50900, 32, 53, 51068] = None
   \<and> parse_date 2027 [50, 50900, 32, 53, 51068]
       = Inr (Some \<lparr>year = 2027, month = 2, day = 5\<rparr>)
   \<and> year \<lparr>year = 2027, month = 2, day = 5\<rparr> = 2027"
proof -
  note t = full_date_and_current_year [where Y = "[50, 48, 50, 54]" and M = "[48, 50]"
      and D = "[48, 53]" and ?ws1.0 = "[32]" and ?ws2.0 = "[32]"
      and pre = "[47700, 45684, 32]" and post = "[32, 51216, 49900]"
      and y = 2026 and m = 2 and d = 5 and yn = 2027
      and inp = "[47700, 45684, 32, 50, 48, 50, 54, 45380, 32, 48, 50, 50900, 32, 48, 53,
                  51068, 32, 51216, 49900]"
      and ?inp2.0 = "[50, 50900, 32, 53, 51068]"
      and x = "\<lparr>year = 2027, month = 2, day = 5\<rparr>"]
  have r1: "parse_date 2027
     [47700, 45684, 32, 50, 48, 50, 54, 45380, 32, 48, 50, 50900, 32, 48, 53, 51068,
      32, 51216, 49900]
     = Inr (Some \<lparr>year = 2026, month = 2, day = 5\<rparr>)"
    by (rule t [THEN conjunct1, THEN mp])
       (simp add: ascii_is_digit is_space_def space_chars_def py_int_def ascii_digit_value
          days_in_month_def is_leap_def ch_year_def ch_month_def ch_day_def)
  have a: "re_search pat_full [50, 50900, 32, 53, 51068] = None"
    by (simp add: eval_pats eval_chars)
  have b: "parse_date 2027 [50, 50900, 32, 53, 51068]
       = Inr (Some \<lparr>year = 2027, month = 2, day = 5\<rparr>)"
    by (simp add: eval_parse)
  have r2: "year \<lparr>year = 2027, month = 2, day = 5\<rparr> = 2027"
    by (rule t [THEN conjunct2, THEN conjunct1, THEN mp]) (intro conjI a b)
  show ?thesis by (intro conjI r1 a b r2)
qed

text \<open>
  Claim C8. While the clock shows a year a \<open>datetime\<close> can hold, \<open>parse_date\<close> returns
  on every text and raises nothing: whichever pattern of the list is reached, a match
  whose construction yields no date (a month 13, a day 40, a year 0) makes the loop go on
  with the patterns after it; a text on which no pattern matches yields \<open>None\<close>, and so does
  every text without a decimal digit.
\<close>

theorem parse_date_never_raises:
  "1 \<le> yn \<and> yn \<le> 9999 \<longrightarrow>
     (\<exists>r. parse_date yn inp = Inr r)
   \<and> (i < length (patterns yn) \<and> patterns yn ! i = (pat, parser)
        \<and> re_search pat inp = Some m \<and> (\<forall>x. parser m \<noteq> Inr x)
      \<longrightarrow> try_patterns (drop i (patterns yn)) inp
          = try_patterns (drop (Suc i) (patterns yn)) inp)
   \<and> (re_search pat_full inp2 = None \<and> re_search pat_month_day inp2 = None
        \<and> re_search pat_dotted inp2 = None \<and> re_search pat_slashed inp2 = None
      \<longrightarrow> parse_date yn inp2 = Inr None)
   \<and> ((\<forall>c\<in>set inp3. \<not> is_digit c) \<longrightarrow> parse_date yn inp3 = Inr None)"
proof (intro impI conjI)
  assume yn: "1 \<le> yn \<and> yn \<le> 9999"
  then have fits: "fits_c_int yn" by (simp add: year_fits)
  show "\<exists>r. parse_date yn inp = Inr r" using fits by (rule parse_date_total_aux)
  show "try_patterns (drop i (patterns yn)) inp = try_patterns (drop (Suc i) (patterns yn)) inp"
    if h: "i < length (patterns yn) \<and> patterns yn ! i = (pat, parser)
        \<and> re_search pat inp = Some m \<and> (\<forall>x. parser m \<noteq> Inr x)"
  proof -
    from patterns_ok [OF fits, of inp] h have ok: "ok_entry inp (pat, parser)"
      by (auto simp: list_all_length)
    from h have "drop i (patterns yn) = (pat, parser) # drop (Suc i) (patterns yn)"
      by (metis Cons_nth_drop_Suc)
    with try_patterns_skip [OF ok] h show ?thesis by simp
  qed
next
  assume "re_search pat_full inp2 = None \<and> re_search pat_month_day inp2 = None
        \<and> re_search pat_dotted inp2 = None \<and> re_search pat_slashed inp2 = None"
  then show "parse_date yn inp2 = Inr None" by (simp add: all_fail_None)
next
  assume "\<forall>c\<in>set inp3. \<not> is_digit c"
  then show "parse_date yn inp3 = Inr None" by (rule parse_date_no_digit)
qed

text \<open>
  The theorem in 2026 at the text \<open>13.5 2/5\<close>: the dotted pattern matches with month 13,
  the loop goes on, and the slashed pattern gives 5 February; and at the text \<open>abc\<close>.
\<close>

theorem parse_date_never_raises_witness:
  "parse_date 2026 [49, 51, 46, 53, 32, 50, 47, 53]
     = Inr (Some \<lparr>year = 2026, month = 2, day = 5\<rparr>)
   \<and> re_search pat_dotted [49, 51, 46, 53, 32, 50, 47, 53] = Some [[49, 51], [53]]
   \<and> parser_this_year 2026 [[49, 51], [53]] = Inl ValueError
   \<and> try_patterns (drop 2 (patterns 2026)) [49, 51, 46, 53, 32, 50, 47, 53]
       = try_patterns (drop 3 (patterns 2026)) [49, 51, 46, 53, 32, 50, 47, 53]
   \<and> parse_date 2026 [97, 98, 99] = Inr None"
proof -
  let ?t = "[49, 51, 46, 53, 32, 50, 47, 53]"
  have yn: "(1::int) \<le> 2026 \<and> (2026::int) \<le> 9999" by simp
  note t = parse_date_never_raises [where yn = 2026 and i = 2 and pat = pat_dotted
      and parser = "parser_this_year 2026" and m = "[[49, 51], [53]]"
      and inp = ?t and ?inp2.0 = "[97, 98, 99]" and ?inp3.0 = "[97, 98, 99]",
      THEN mp, OF yn]
  have a: "re_search pat_dotted ?t = Some [[49, 51], [53]]"
    by (simp add: eval_pats eval_chars)
  have b: "parser_this_year 2026 [[49, 51], [53]] = Inl ValueError"
    by (simp add: eval_parse)
  then have b': "\<forall>x. parser_this_year 2026 [[49, 51], [53]] \<noteq> Inr x" by simp
  have c: "2 < length (patterns 2026)"
    "patterns 2026 ! 2 = (pat_dotted, parser_this_year 2026)"
    by (simp_all add: patterns_def)
  have f: "parse_date 2026 ?t = Inr (Some \<lparr>year = 2026, month = 2, day = 5\<rparr>)"
    by (simp add: eval_parse)
  have r1: "try_patterns (drop 2 (patterns 2026)) ?t = try_patterns (drop (Suc 2) (patterns 2026)) ?t"
    by (rule t [THEN conjunct2, THEN conjunct1, THEN mp]) (intro conjI c a b')
  then have r1': "try_patterns (drop 2 (patterns 2026)) ?t = try_patterns (drop 3 (patterns 2026)) ?t"
    by (simp only: eval_nat_numeral)
  have r2: "parse_date 2026 [97, 98, 99] = Inr None"
    by (rule t [THEN conjunct2, THEN conjunct2, THEN conjunct2, THEN mp])
       (simp add: letters_no_digit)
  show ?thesis by (intro conjI f a b r1' r2)
qed

text \<open>
  Claim C9, as stated, fails: the empty text, a text without any date and a text whose
  only match fails validation all give the same value \<open>None\<close>.
\<close>

theorem absent_same_as_empty_counterexample:
  "parse_date 2026 [] = Inr None
   \<and> parse_date 2026 [97, 98, 99] = parse_date 2026 []
   \<and> parse_date 2026 [49, 51, 50900, 32, 52, 48, 51068] = parse_date 2026 []"
  by (simp add: eval_parse)

text \<open>
  Claim C9, amended. \<open>parse_date\<close> has one value for "no date": whenever it resolves no
  date for a text, for want of a match or because every construction failed, it returns
  what it returns for the empty text, \<open>None\<close>.
\<close>

theorem absent_same_as_empty:
  "1 \<le> yn \<and> yn \<le> 9999 \<longrightarrow>
     parse_date yn [] = Inr None
   \<and> ((\<forall>x. parse_date yn inp \<noteq> Inr (Some x)) \<longrightarrow> parse_date yn inp = parse_date yn [])"
proof (intro impI conjI)
  assume yn: "1 \<le> yn \<and> yn \<le> 9999"
  show "parse_date yn [] = Inr None" by (rule parse_date_empty)
  assume no: "\<forall>x. parse_date yn inp \<noteq> Inr (Some x)"
  from yn obtain r where r: "parse_date yn inp = Inr r"
    using parse_date_total_aux [of yn inp] by (auto simp: year_fits)
  with no have "r = None" by (cases r) auto
  with r show "parse_date yn inp = parse_date yn []" by (simp add: parse_date_empty)
qed

theorem absent_same_as_empty_witness:
  "parse_date 2026 [49, 51, 50900, 32, 52, 48, 51068] = parse_date 2026 []
   \<and> parse_date 2026 [] = Inr None"
proof -
  have yn: "(1::int) \<le> 2026 \<and> (2026::int) \<le> 9999" by simp
  note t = absent_same_as_empty [where yn = 2026
      and inp = "[49, 51, 50900, 32, 52, 48, 51068]", THEN mp, OF yn]
  have a: "\<forall>x. parse_date 2026 [49, 51, 50900, 32, 52, 48, 51068] \<noteq> Inr (Some x)"
    by (simp add: eval_parse)
  have r: "parse_date 2026 [49, 51, 50900, 32, 52, 48, 51068] = parse_date 2026 []"
    by (rule t [THEN conjunct2, THEN mp]) (rule a)
  show ?thesis by (intro conjI r t [THEN conjunct1])
qed

text \<open>
  Claim C10. Only the leftmost occurrence of a pattern counts. Let a pattern of the list
  match at position \<open>k\<close> of the text and at no earlier position, with fields that build
  no date. Then \<open>re.search\<close> returns that match, and the loop goes on with the patterns
  after it, whatever follows in the text. For the month-day pattern: when the full-date
  pattern matches nowhere, the result is the one of the dotted and slashed patterns
  alone, and it is \<open>None\<close> when these match nowhere.
\<close>

theorem leftmost_occurrence_only:
  "1 \<le> yn \<and> yn \<le> 9999
   \<and> i < length (patterns yn) \<and> patterns yn ! i = (pat, parser)
   \<and> k \<le> length inp \<and> match_here pat (drop k inp) = Some m
   \<and> (\<forall>j<k. match_here pat (drop j inp) = None)
   \<and> (\<forall>x. parser m \<noteq> Inr x)
   \<longrightarrow> re_search pat inp = Some m
     \<and> try_patterns (drop i (patterns yn)) inp = try_patterns (drop (Suc i) (patterns yn)) inp
     \<and> (i = 1 \<and> re_search pat_full inp = None
          \<longrightarrow> parse_date yn inp = try_patterns (drop 2 (patterns yn)) inp)
     \<and> (i = 1 \<and> re_search pat_full inp = None \<and> re_search pat_dotted inp = None
          \<and> re_search pat_slashed inp = None
          \<longrightarrow> parse_date yn inp = Inr None)"
proof (intro impI)
  assume h: "1 \<le> yn \<and> yn \<le> 9999
   \<and> i < length (patterns yn) \<and> patterns yn ! i = (pat, parser)
   \<and> k \<le> length inp \<and> match_here pat (drop k inp) = Some m
   \<and> (\<forall>j<k. match_here pat (drop j inp) = None)
   \<and> (\<forall>x. parser m \<noteq> Inr x)"
  then have fits: "fits_c_int yn" by (simp add: year_fits)
  from h have found: "re_search pat inp = Some m"
    by (intro re_search_leftmost [where k = k]) simp_all
  from patterns_ok [OF fits, of inp] h have ok: "ok_entry inp (pat, parser)"
    by (auto simp: list_all_length)
  from h have "drop i (patterns yn) = (pat, parser) # drop (Suc i) (patterns yn)"
    by (metis Cons_nth_drop_Suc)
  with try_patterns_skip [OF ok found] h
  have skip: "try_patterns (drop i (patterns yn)) inp = try_patterns (drop (Suc i) (patterns yn)) inp"
    by simp
  have md: "parse_date yn inp = try_patterns (drop 2 (patterns yn)) inp"
    if "i = 1 \<and> re_search pat_full inp = None"
  proof -
    from that have "parse_date yn inp = try_patterns (drop 1 (patterns yn)) inp"
      by (simp add: parse_date_def patterns_def)
    with skip that show ?thesis by (simp add: numeral_2_eq_2)
  qed
  have "parse_date yn inp = Inr None"
    if "i = 1 \<and> re_search pat_full inp = None \<and> re_search pat_dotted inp = None
          \<and> re_search pat_slashed inp = None"
    using md that by (simp add: patterns_def)
  with found skip md show "re_search pat inp = Some m
     \<and> try_patterns (drop i (patterns yn)) inp = try_patterns (drop (Suc i) (patterns yn)) inp
     \<and> (i = 1 \<and> re_search pat_full inp = None
          \<longrightarrow> parse_date yn inp = try_patterns (drop 2 (patterns yn)) inp)
     \<and> (i = 1 \<and> re_search pat_full inp = None \<and> re_search pat_dotted inp = None
          \<and> re_search pat_slashed inp = None
          \<longrightarrow> parse_date yn inp = Inr None)"
    by blast
qed

text \<open>
  The theorem in 2026 at the text \<open>13\<close>\<^emph>\<open>M\<close> \<open>40\<close>\<^emph>\<open>D\<close> \<open>2\<close>\<^emph>\<open>M\<close> \<open>5\<close>\<^emph>\<open>D\<close>: the
  leftmost month-day occurrence, at position 0, is month 13, day 40; the text resolves to
  nothing, although what follows that occurrence resolves to 5 February on its own.
\<close>

theorem leftmost_occurrence_only_witness:
  "re_search pat_month_day
     [49, 51, 50900, 32, 52, 48, 51068, 32, 50, 50900, 32, 53, 51068] = Some [[49, 51], [52, 48]]
   \<and> parse_date 2026 [49, 51, 50900, 32, 52, 48, 51068, 32, 50, 50900, 32, 53, 51068] = Inr None
   \<and> parse_date 2026 (drop 8 [49, 51, 50900, 32, 52, 48, 51068, 32, 50, 50900, 32, 53, 51068])
       = Inr (Some \<lparr>year = 2026, month = 2, day = 5\<rparr>)"
proof -
  let ?t = "[49, 51, 50900, 32, 52, 48, 51068, 32, 50, 50900, 32, 53, 51068]"
  have y1: "(1::int) \<le> 2026" and y2: "(2026::int) \<le> 9999" by simp_all
  have a: "match_here pat_month_day (drop 0 ?t) = Some [[49, 51], [52, 48]]"
    by (simp add: eval_pats eval_chars)
  have a0: "0 \<le> length ?t" by simp
  have a1: "\<forall>j<0. match_here pat_month_day (drop j ?t) = None" by simp
  have b: "\<forall>x. parser_this_year 2026 [[49, 51], [52, 48]] \<noteq> Inr x"
    by (simp add: eval_parse)
  have c: "1 < length (patterns 2026)"
    "patterns 2026 ! 1 = (pat_month_day, parser_this_year 2026)"
    by (simp_all add: patterns_def)
  have d: "re_search pat_full ?t = None" "re_search pat_dotted ?t = None"
    "re_search pat_slashed ?t = None"
    by (simp_all add: eval_pats eval_chars)
  have e: "parse_date 2026 (drop 8 ?t) = Inr (Some \<lparr>year = 2026, month = 2, day = 5\<rparr>)"
    by (simp add: eval_parse)
  have hyp: "(1::int) \<le> 2026 \<and> (2026::int) \<le> 9999
     \<and> 1 < length (patterns 2026) \<and> patterns 2026 ! 1 = (pat_month_day, parser_this_year 2026)
     \<and> 0 \<le> length ?t \<and> match_here pat_month_day (drop 0 ?t) = Some [[49, 51], [52, 48]]
     \<and> (\<forall>j<0. match_here pat_month_day (drop j ?t) = None)
     \<and> (\<forall>x. parser_this_year 2026 [[49, 51], [52, 48]] \<noteq> Inr x)"
    by (intro conjI y1 y2 c a0 a a1 b)
  note t = leftmost_occurrence_only [where yn = 2026 and i = 1 and pat = pat_month_day
      and parser = "parser_this_year 2026" and k = 0 and m = "[[49, 51], [52, 48]]"
      and inp = ?t, THEN mp, OF hyp]
  have r: "parse_date 2026 ?t = Inr None"
    by (rule t [THEN conjunct2, THEN conjunct2, THEN conjunct2, THEN mp])
       (intro conjI refl d)
  show ?thesis by (intro conjI t [THEN conjunct1] r e)
qed

section \<open>Assembling a record\<close>

text \<open>
  Claim C4. Without \<open>date_in_post\<close> the post title plays no part: whatever its extraction
  would answer, \<open>scrape_menu\<close> returns the same, and the date of the record is the one
  resolved from the OCR text. With \<open>date_in_post\<close> a title that resolves to a date gives
  the record its date; the OCR text decides only when the title is absent or resolves to
  nothing. In both cases the date of the record is the first resolved date among the
  candidates of the specification, taken in their order.
\<close>

theorem date_source_order:
  "(\<not> date_in_post r \<longrightarrow> scrape_menu (s\<lparr>post_title_found := pt\<rparr>) r = scrape_menu s r)
   \<and> (scrape_menu s r = Inr (Some x) \<and> \<not> date_in_post r
        \<longrightarrow> parse_date (year_at_ocr s) (ocr_text_of s) = Inr (rec_date x))
   \<and> (scrape_menu s r = Inr (Some x) \<and> date_in_post r
        \<and> post_title_found s = Inr (Some t) \<and> parse_date (year_at_title s) t = Inr (Some d)
        \<longrightarrow> rec_date x = Some d)
   \<and> (scrape_menu s r = Inr (Some x) \<and> date_in_post r
        \<and> (title_text s = None
            \<or> (\<exists>t. title_text s = Some t \<and> parse_date (year_at_title s) t = Inr None))
        \<longrightarrow> parse_date (year_at_ocr s) (ocr_text_of s) = Inr (rec_date x))
   \<and> (scrape_menu s r = Inr (Some x)
        \<longrightarrow> rec_date x = resolve_first (clock s) (candidates r (title_text s) (ocr_text_of s)))"
proof -
  let ?title = "if date_in_post r
         then bind (post_title_found s) (\<lambda>post_title.
                case post_title of None \<Rightarrow> Inr None
                | Some t \<Rightarrow> if t = [] then Inr None else parse_date (year_at_title s) t)
         else Inr None"
  let ?ocr = "parse_date (year_at_ocr s) (ocr_text_of s)"
  have ignored: "scrape_menu (s\<lparr>post_title_found := pt\<rparr>) r = scrape_menu s r"
    if "\<not> date_in_post r"
    using that
    by (simp add: scrape_menu_def extract_text_from_image_def cong: if_cong option.case_cong)
  have dates: "\<exists>td. ?title = Inr td
       \<and> (if \<not> date_in_post r \<or> td = None then ?ocr else Inr td) = Inr (rec_date x)"
    if a: "scrape_menu s r = Inr (Some x)"
  proof -
    from scrape_menu_SomeD [OF a] obtain td ocr where
      td: "?title = Inr td" and ex: "extract_text_from_image s = Inr ocr"
      and md: "(if \<not> date_in_post r \<or> td = None then parse_date (year_at_ocr s) ocr
                else Inr td) = Inr (rec_date x)"
      by blast
    from ex have "ocr = ocr_text_of s" by (rule extract_text_cases)
    with td md show ?thesis by blast
  qed
  have from_ocr: "?ocr = Inr (rec_date x)"
    if "scrape_menu s r = Inr (Some x)" and "\<not> date_in_post r"
    using dates [OF that(1)] that(2) by auto
  have title_wins: "rec_date x = Some d"
    if a: "scrape_menu s r = Inr (Some x)" and p: "date_in_post r"
      and t: "post_title_found s = Inr (Some t)"
      and d: "parse_date (year_at_title s) t = Inr (Some d)"
  proof -
    have "t \<noteq> []" using d by (auto simp: parse_date_empty)
    with p t d have "?title = Inr (Some d)" by (simp add: bind_def)
    with dates [OF a] p show ?thesis by auto
  qed
  have fallback: "?ocr = Inr (rec_date x)"
    if a: "scrape_menu s r = Inr (Some x)" and p: "date_in_post r"
      and t: "title_text s = None
            \<or> (\<exists>t. title_text s = Some t \<and> parse_date (year_at_title s) t = Inr None)"
  proof -
    from dates [OF a] obtain td where td: "?title = Inr td"
      and md: "(if \<not> date_in_post r \<or> td = None then ?ocr else Inr td) = Inr (rec_date x)"
      by blast
    from td p obtain pt where pt: "post_title_found s = Inr pt"
      by (cases "post_title_found s") (simp_all add: bind_def)
    then have tt: "title_text s = pt" by (simp add: title_text_def)
    have "td = None"
    proof (cases pt)
      case None
      with td p pt show ?thesis by (simp add: bind_def)
    next
      case (Some u)
      with t tt have "parse_date (year_at_title s) u = Inr None" by simp
      with td p pt Some show ?thesis by (simp add: bind_def split: if_splits)
    qed
    with md show ?thesis by simp
  qed
  have refines: "rec_date x = resolve_first (clock s) (candidates r (title_text s) (ocr_text_of s))"
    if a: "scrape_menu s r = Inr (Some x)"
  proof -
    from dates [OF a] obtain td where td: "?title = Inr td"
      and md: "(if \<not> date_in_post r \<or> td = None then ?ocr else Inr td) = Inr (rec_date x)"
      by blast
    have last: "resolve_first (clock s) [(ImageOcr, ocr_text_of s)] = rec_date x"
      if "?ocr = Inr (rec_date x)"
      using that by (cases "rec_date x") (simp_all add: clock_def)
    show ?thesis
    proof (cases "date_in_post r")
      case False
      with md have "?ocr = Inr (rec_date x)" by simp
      from last [OF this] False show ?thesis by (simp add: candidates_def)
    next
      case True
      with td obtain pt where pt: "post_title_found s = Inr pt"
        by (cases "post_title_found s") (simp_all add: bind_def)
      then have tt: "title_text s = pt" by (simp add: title_text_def)
      show ?thesis
      proof (cases pt)
        case None
        with td True pt have "td = None" by (simp add: bind_def)
        with md have "?ocr = Inr (rec_date x)" by simp
        from last [OF this] True tt None show ?thesis by (simp add: candidates_def)
      next
        case (Some u)
        have pu: "parse_date (year_at_title s) u = Inr td"
          using td True pt Some by (cases "u = []") (simp_all add: bind_def parse_date_empty)
        show ?thesis
        proof (cases td)
          case None
          with md have "?ocr = Inr (rec_date x)" by simp
          from last [OF this] True tt Some pu None show ?thesis
            by (simp add: candidates_def clock_def)
        next
          case (Some d)
          with md True have "rec_date x = Some d" by simp
          with True tt \<open>pt = Some u\<close> pu Some show ?thesis
            by (simp add: candidates_def clock_def)
        qed
      qed
    qed
  qed
  from ignored from_ocr title_wins fallback refines show ?thesis by blast
qed

text \<open>
  The theorem at a sample site whose post title reads \<open>2/5\<close> and whose image reads
  \<open>2/4\<close>: a restaurant with \<open>date_in_post\<close> gets the date 5 February from the title, a
  restaurant without it gets 4 February from the image.
\<close>

theorem date_source_order_witness:
  "scrape_menu (ex_site (Some [50, 47, 53]) (Inr [50, 47, 52])) (ex_restaurant [65] True)
     = Inr (Some (ex_record [65] (Some \<lparr>year = 2026, month = 2, day = 5\<rparr>) [50, 47, 52]))
   \<and> scrape_menu (ex_site (Some [50, 47, 53]) (Inr [50, 47, 52])) (ex_restaurant [66] False)
     = Inr (Some (ex_record [66] (Some \<lparr>year = 2026, month = 2, day = 4\<rparr>) [50, 47, 52]))
   \<and> resolve_first (clock (ex_site (Some [50, 47, 53]) (Inr [50, 47, 52])))
        (candidates (ex_restaurant [65] True) (Some [50, 47, 53]) [50, 47, 52])
       = Some \<lparr>year = 2026, month = 2, day = 5\<rparr>
   \<and> resolve_first (clock (ex_site (Some [50, 47, 53]) (Inr [50, 47, 52])))
        (candidates (ex_restaurant [66] False) (Some [50, 47, 53]) [50, 47, 52])
       = Some \<lparr>year = 2026, month = 2, day = 4\<rparr>"
proof -
  let ?s = "ex_site (Some [50, 47, 53]) (Inr [50, 47, 52])"
  let ?a = "ex_restaurant [65] True"
  let ?b = "ex_restaurant [66] False"
  let ?xa = "ex_record [65] (Some \<lparr>year = 2026, month = 2, day = 5\<rparr>) [50, 47, 52]"
  let ?xb = "ex_record [66] (Some \<lparr>year = 2026, month = 2, day = 4\<rparr>) [50, 47, 52]"
  have a: "scrape_menu ?s ?a = Inr (Some ?xa)"
    using scrape_ex_today [of "Inr [50, 47, 52]" "[65]"] by simp
  have b: "scrape_menu ?s ?b = Inr (Some ?xb)"
    by (simp add: scrape_menu_def ex_site_def ex_restaurant_def ex_record_def truthy_def
        bind_def extract_text_from_image_def is_today_eq parse_slash_yesterday)
  have tt: "title_text ?s = Some [50, 47, 53]" "ocr_text_of ?s = [50, 47, 52]"
    by (simp_all add: title_text_def ocr_text_of_def ex_site_def)
  have da: "rec_date ?xa = Some \<lparr>year = 2026, month = 2, day = 5\<rparr>"
    and db: "rec_date ?xb = Some \<lparr>year = 2026, month = 2, day = 4\<rparr>"
    by (simp_all add: ex_record_def)
  have ra: "rec_date ?xa = resolve_first (clock ?s) (candidates ?a (title_text ?s) (ocr_text_of ?s))"
    by (rule date_source_order [where s = ?s and r = ?a and x = ?xa,
          THEN conjunct2, THEN conjunct2, THEN conjunct2, THEN conjunct2, THEN mp]) (rule a)
  have rb: "rec_date ?xb = resolve_first (clock ?s) (candidates ?b (title_text ?s) (ocr_text_of ?s))"
    by (rule date_source_order [where s = ?s and r = ?b and x = ?xb,
          THEN conjunct2, THEN conjunct2, THEN conjunct2, THEN conjunct2, THEN mp]) (rule b)
  from ra rb have
    "resolve_first (clock ?s) (candidates ?a (Some [50, 47, 53]) [50, 47, 52])
       = Some \<lparr>year = 2026, month = 2, day = 5\<rparr>"
    "resolve_first (clock ?s) (candidates ?b (Some [50, 47, 53]) [50, 47, 52])
       = Some \<lparr>year = 2026, month = 2, day = 4\<rparr>"
    by (simp_all only: tt da db)
  with a b show ?thesis by (intro conjI)
qed

text \<open>
  Claim C6. \<open>is_today\<close> returns a truth value for every date, present or absent, and
  never raises: it is true exactly when the date is present and equal to the current
  date. An absent date gives false; so does the day after the current date, and a date
  whose next day is the current date. The flag of a record is \<open>is_today\<close> of its date, at
  the date the site's clock shows.
\<close>

theorem is_today_iff:
  "is_today now d = Inr (d = Some now)
   \<and> is_today now None = Inr False
   \<and> is_today now (Some (next_day now)) = Inr False
   \<and> is_today (next_day y) (Some y) = Inr False
   \<and> (scrape_menu s r = Inr (Some x) \<longrightarrow> rec_is_today x = (rec_date x = Some (today s)))"
proof (intro conjI impI)
  show "is_today now d = Inr (d = Some now)" by (rule is_today_eq)
  show "is_today now None = Inr False" by (simp add: is_today_eq)
  show "is_today now (Some (next_day now)) = Inr False"
    by (simp add: is_today_eq next_day_neq)
  show "is_today (next_day y) (Some y) = Inr False"
    using next_day_neq [of y] by (auto simp: is_today_eq)
  assume "scrape_menu s r = Inr (Some x)"
  from scrape_menu_SomeD [OF this] obtain u img ocr where
    "x = \<lparr>rec_restaurant = name r, rec_date = rec_date x,
          rec_is_today = (rec_date x = Some (today s)),
          rec_image_url = u, rec_menu_text = ocr, rec_image = img\<rparr>"
    by blast
  then have "rec_is_today x = rec_is_today \<lparr>rec_restaurant = name r, rec_date = rec_date x,
          rec_is_today = (rec_date x = Some (today s)),
          rec_image_url = u, rec_menu_text = ocr, rec_image = img\<rparr>"
    by simp
  then show "rec_is_today x = (rec_date x = Some (today s))" by simp
qed

text \<open>
  The theorem on 5 February 2026, for that day, the day after, the day before and no
  date; and for the record of a sample site whose title reads \<open>2/5\<close>.
\<close>

theorem is_today_iff_witness:
  "is_today \<lparr>year = 2026, month = 2, day = 5\<rparr> (Some \<lparr>year = 2026, month = 2, day = 5\<rparr>) = Inr True
   \<and> is_today \<lparr>year = 2026, month = 2, day = 5\<rparr> None = Inr False
   \<and> is_today \<lparr>year = 2026, month = 2, day = 5\<rparr> (Some \<lparr>year = 2026, month = 2, day = 6\<rparr>) = Inr False
   \<and> is_today \<lparr>year = 2026, month = 2, day = 5\<rparr> (Some \<lparr>year = 2026, month = 2, day = 4\<rparr>) = Inr False
   \<and> rec_is_today (ex_record [65] (Some \<lparr>year = 2026, month = 2, day = 5\<rparr>) []) = True"
proof -
  let ?now = "\<lparr>year = 2026, month = 2, day = 5\<rparr>"
  let ?yd = "\<lparr>year = 2026, month = 2, day = 4\<rparr>"
  let ?x = "ex_record [65] (Some ?now) []"
  note t = is_today_iff [where now = ?now and d = "Some ?now" and y = ?yd
      and s = "ex_site (Some [50, 47, 53]) (Inr [])" and r = "ex_restaurant [65] True"
      and x = ?x]
  have n1: "next_day ?now = \<lparr>year = 2026, month = 2, day = 6\<rparr>"
    and n2: "next_day ?yd = ?now"
    by (simp_all add: next_day_def days_in_month_def is_leap_def)
  have sc: "scrape_menu (ex_site (Some [50, 47, 53]) (Inr [])) (ex_restaurant [65] True)
      = Inr (Some ?x)"
    using scrape_ex_today [of "Inr []" "[65]"] by simp
  have r1: "is_today ?now (Some ?now) = Inr True"
    using t [THEN conjunct1] by simp
  have r2: "is_today ?now None = Inr False"
    by (rule t [THEN conjunct2, THEN conjunct1])
  have r3: "is_today ?now (Some \<lparr>year = 2026, month = 2, day = 6\<rparr>) = Inr False"
    using t [THEN conjunct2, THEN conjunct2, THEN conjunct1] by (simp only: n1)
  have r4: "is_today ?now (Some ?yd) = Inr False"
    using t [THEN conjunct2, THEN conjunct2, THEN conjunct2, THEN conjunct1] by (simp only: n2)
  have r5: "rec_is_today ?x = (rec_date ?x = Some (today (ex_site (Some [50, 47, 53]) (Inr []))))"
    by (rule t [THEN conjunct2, THEN conjunct2, THEN conjunct2, THEN conjunct2, THEN mp])
       (rule sc)
  then have r5': "rec_is_today ?x = True" by (simp add: ex_record_def ex_site_def)
  show ?thesis by (intro conjI r1 r2 r3 r4 r5')
qed

text \<open>
  Claim C7, as stated, fails for the OCR read: when \<open>reader.readtext\<close> raises,
  \<open>extract_text_from_image\<close> answers the empty text and \<open>scrape_menu\<close> goes on. At a
  sample site whose title reads \<open>2/5\<close> and whose OCR read fails, a record is produced,
  with an empty text and today's date.
\<close>

theorem ocr_failure_counterexample:
  "scrape_menu (ex_site (Some [50, 47, 53]) (Inl OtherError)) (ex_restaurant [65] True)
     = Inr (Some \<lparr>rec_restaurant = [65],
                 rec_date = Some \<lparr>year = 2026, month = 2, day = 5\<rparr>,
                 rec_is_today = True,
                 rec_image_url = [104, 116, 116, 112],
                 rec_menu_text = [],
                 rec_image = 7\<rparr>)"
  using scrape_ex_today [of "Inl OtherError" "[65]"] by (simp add: ex_record_def)

text \<open>
  Claim C7, amended. When the page cannot be fetched, no image address is found, its
  extraction raises, the image cannot be downloaded, or the OCR engine cannot be prepared,
  \<open>scrape_menu\<close> produces no record; and a restaurant that produces no record leaves the
  results of the attempt as they are without it, the restaurants after it being scraped
  all the same. When only the OCR read fails, the text is empty and a record with the
  empty text is produced.
\<close>

theorem failure_is_a_skip:
  "((\<not> truthy (page_html s) \<or> (\<exists>e. image_url_found s = Inl e)
       \<or> (\<exists>u. image_url_found s = Inr u \<and> \<not> truthy u)
       \<or> image_file s = None \<or> (\<exists>e. ocr_prepared s = Inl e))
      \<longrightarrow> (\<forall>x. scrape_menu s r \<noteq> Inr (Some x)))
   \<and> ((\<forall>x. scrape_menu (w r) r \<noteq> Inr (Some x))
      \<longrightarrow> collect w (before @ r # after) [] = collect w (before @ after) [])
   \<and> (truthy (page_html s) \<and> image_url_found s = Inr (Some u) \<and> u \<noteq> []
        \<and> image_file s = Some img \<and> (date_in_post r \<longrightarrow> (\<exists>pt. post_title_found s = Inr pt))
        \<and> ocr_prepared s = Inr () \<and> ocr_read s = Inl e
        \<and> 1 \<le> year_at_title s \<and> year_at_title s \<le> 9999
        \<and> 1 \<le> year_at_ocr s \<and> year_at_ocr s \<le> 9999
      \<longrightarrow> (\<exists>x. scrape_menu s r = Inr (Some x) \<and> rec_menu_text x = []
               \<and> rec_restaurant x = name r))"
proof (intro conjI impI allI; (elim conjE)?)
  fix x
  assume f: "\<not> truthy (page_html s) \<or> (\<exists>e. image_url_found s = Inl e)
       \<or> (\<exists>u. image_url_found s = Inr u \<and> \<not> truthy u)
       \<or> image_file s = None \<or> (\<exists>e. ocr_prepared s = Inl e)"
  show "scrape_menu s r \<noteq> Inr (Some x)"
  proof
    assume "scrape_menu s r = Inr (Some x)"
    from scrape_menu_SomeD [OF this] f show False
      by (auto simp: truthy_def extract_text_from_image_def bind_def)
  qed
next
  assume "\<forall>x. scrape_menu (w r) r \<noteq> Inr (Some x)"
  then have "collect w (r # after) (collect w before []) = collect w after (collect w before [])"
    by (rule collect_skip)
  then show "collect w (before @ r # after) [] = collect w (before @ after) []"
    by (simp only: collect_append)
next
  assume p: "truthy (page_html s)" and iu: "image_url_found s = Inr (Some u)" "u \<noteq> []"
    and img: "image_file s = Some img"
    and pt: "date_in_post r \<longrightarrow> (\<exists>pt. post_title_found s = Inr pt)"
    and o: "ocr_prepared s = Inr ()" "ocr_read s = Inl e"
    and y: "1 \<le> year_at_title s" "year_at_title s \<le> 9999"
      "1 \<le> year_at_ocr s" "year_at_ocr s \<le> 9999"
  have ex: "extract_text_from_image s = Inr []"
    using o by (simp add: extract_text_from_image_def bind_def)
  let ?title = "if date_in_post r
         then bind (post_title_found s) (\<lambda>post_title.
                case post_title of None \<Rightarrow> Inr None
                | Some t \<Rightarrow> if t = [] then Inr None else parse_date (year_at_title s) t)
         else Inr None"
  have "\<exists>td. ?title = Inr td"
    using pt parse_date_total_aux [OF year_fits [OF y(1,2)]]
    by (auto simp: bind_def split: option.splits)
  then obtain td where td: "?title = Inr td" ..
  obtain md where md: "parse_date (year_at_ocr s) [] = Inr md"
    using parse_date_total_aux [OF year_fits [OF y(3,4)]] by blast
  let ?md = "if \<not> date_in_post r \<or> td = None then md else td"
  have "scrape_menu s r = Inr (Some \<lparr>rec_restaurant = name r, rec_date = ?md,
          rec_is_today = (?md = Some (today s)), rec_image_url = u, rec_menu_text = [],
          rec_image = img\<rparr>)"
    using p iu img td ex md by (simp add: scrape_menu_def bind_def is_today_eq)
  then show "\<exists>x. scrape_menu s r = Inr (Some x) \<and> rec_menu_text x = []
               \<and> rec_restaurant x = name r"
    by simp
qed

text \<open>
  The theorem with three restaurants of which the second cannot be fetched: the attempt
  yields the records of the first and the third; and at the sample site whose OCR read
  fails.
\<close>

theorem failure_is_a_skip_witness:
  "(\<forall>x. scrape_menu ex_site_down (ex_restaurant [66] True) \<noteq> Inr (Some x))
   \<and> collect (\<lambda>r. if name r = [66] then ex_site_down else ex_site (Some [50, 47, 52]) (Inr []))
       ([ex_restaurant [65] True] @ ex_restaurant [66] True # [ex_restaurant [67] True]) []
     = [ex_record [65] (Some \<lparr>year = 2026, month = 2, day = 4\<rparr>) [],
        ex_record [67] (Some \<lparr>year = 2026, month = 2, day = 4\<rparr>) []]
   \<and> (\<exists>x. scrape_menu (ex_site (Some [50, 47, 53]) (Inl OtherError)) (ex_restaurant [65] True)
             = Inr (Some x)
           \<and> rec_menu_text x = [] \<and> rec_restaurant x = name (ex_restaurant [65] True))"
proof -
  let ?w = "\<lambda>r. if name r = [66] then ex_site_down else ex_site (Some [50, 47, 52]) (Inr [])"
  let ?a = "ex_restaurant [65] True"
  let ?b = "ex_restaurant [66] True"
  let ?c = "ex_restaurant [67] True"
  let ?s = "ex_site (Some [50, 47, 53]) (Inl OtherError)"
  have down: "\<not> truthy (page_html ex_site_down) \<or> (\<exists>e. image_url_found ex_site_down = Inl e)
       \<or> (\<exists>u. image_url_found ex_site_down = Inr u \<and> \<not> truthy u)
       \<or> image_file ex_site_down = None \<or> (\<exists>e. ocr_prepared ex_site_down = Inl e)"
    by (simp add: ex_site_down_def truthy_def)
  have r1: "\<forall>x. scrape_menu ex_site_down ?b \<noteq> Inr (Some x)"
    by (rule failure_is_a_skip [where s = ex_site_down and r = ?b, THEN conjunct1, THEN mp])
       (rule down)
  have wb: "?w ?b = ex_site_down" by (simp add: ex_restaurant_def)
  have r2: "collect ?w ([?a] @ ?b # [?c]) [] = collect ?w ([?a] @ [?c]) []"
    by (rule failure_is_a_skip [where w = ?w and r = ?b, THEN conjunct2, THEN conjunct1, THEN mp])
       (simp only: wb r1 simp_thms)
  have wa: "?w ?a = ex_site (Some [50, 47, 52]) (Inr [])"
    and wc: "?w ?c = ex_site (Some [50, 47, 52]) (Inr [])"
    by (simp_all add: ex_restaurant_def)
  have "collect ?w ([?a] @ [?c]) []
     = [ex_record [65] (Some \<lparr>year = 2026, month = 2, day = 4\<rparr>) [],
        ex_record [67] (Some \<lparr>year = 2026, month = 2, day = 4\<rparr>) []]"
    by (simp add: wa wc scrape_ex_stale del: ex_restaurant_def)
  with r2 have r2': "collect ?w ([?a] @ ?b # [?c]) []
     = [ex_record [65] (Some \<lparr>year = 2026, month = 2, day = 4\<rparr>) [],
        ex_record [67] (Some \<lparr>year = 2026, month = 2, day = 4\<rparr>) []]"
    by (simp only:)
  have r3: "\<exists>x. scrape_menu ?s ?a = Inr (Some x) \<and> rec_menu_text x = []
       \<and> rec_restaurant x = name ?a"
    by (rule failure_is_a_skip [where s = ?s and r = ?a and u = "[104, 116, 116, 112]"
          and img = 7 and e = OtherError, THEN conjunct2, THEN conjunct2, THEN mp])
       (simp add: ex_site_def truthy_def)
  show ?thesis by (intro conjI r1 r2' r3)
qed

section \<open>The polling controller\<close>

text \<open>
  Claim C1, as stated, fails: the loop empties \<open>results\<close> at the start of every
  attempt, so nothing is kept from one attempt to the next. In the sample run,
  restaurant \<open>A\<close> yields a record on attempt 1 and fails on attempt 2, where \<open>B\<close> has
  today's menu: the notification carries the record of \<open>B\<close> alone, while the
  aggregation of the specification holds the records of both.
\<close>

theorem aggregation_counterexample:
  "poll ex_world [ex_restaurant [65] True, ex_restaurant [66] True] 2 900
     = ([Attempted 1 [ex_record [65] (Some \<lparr>year = 2026, month = 2, day = 4\<rparr>) []],
         Slept 900,
         Attempted 2 [ex_record [66] (Some \<lparr>year = 2026, month = 2, day = 5\<rparr>) []],
         Notified [ex_record [66] (Some \<lparr>year = 2026, month = 2, day = 5\<rparr>) []]],
        Some Success)
   \<and> aggregated ex_world [ex_restaurant [65] True, ex_restaurant [66] True] 2
     = [ex_record [65] (Some \<lparr>year = 2026, month = 2, day = 4\<rparr>) [],
        ex_record [66] (Some \<lparr>year = 2026, month = 2, day = 5\<rparr>) []]"
proof -
  have "aggregated ex_world [ex_restaurant [65] True, ex_restaurant [66] True] 2
     = [ex_record [65] (Some \<lparr>year = 2026, month = 2, day = 4\<rparr>) [],
        ex_record [66] (Some \<lparr>year = 2026, month = 2, day = 5\<rparr>) []]"
    by (simp add: aggregated_def List.map_filter_simps numeral_2_eq_2 ex_world_values
        ex_world_values [unfolded numeral_2_eq_2]
        scrape_ex_stale scrape_ex_today scrape_ex_down)
  with ex_poll_two show ?thesis by (intro conjI)
qed

text \<open>
  Claim C1, amended. After each attempt the controller's record set holds exactly the
  records produced on that attempt, in the order of the restaurants: one for every
  restaurant whose scrape returned a record, none for a restaurant that failed, whatever
  an earlier attempt produced for it. Every notification, on success as on exhaustion,
  is the last thing of the run and carries the record set of the attempt just made.
\<close>

theorem records_of_the_current_attempt:
  "(Attempted n results \<in> set (fst (poll w rs mx iv))
      \<longrightarrow> 1 \<le> n \<and> n \<le> mx \<and> results = collect (w n) rs [])
   \<and> collect wn rs [] =
       List.map_filter
         (\<lambda>r. case scrape_menu (wn r) r of Inr (Some x) \<Rightarrow> Some x | _ \<Rightarrow> None) rs
   \<and> (Notified results \<in> set (fst (poll w rs mx iv))
      \<longrightarrow> (\<exists>n pre. fst (poll w rs mx iv) = pre @ [Attempted n results, Notified results]
               \<and> 1 \<le> n \<and> n \<le> mx \<and> results = collect (w n) rs []))"
proof (intro conjI impI)
  assume "Attempted n results \<in> set (fst (poll w rs mx iv))"
  then have "n \<in> set [1 ..< mx + 1] \<and> results = collect (w n) rs []"
    unfolding poll_def by (rule attempts_events)
  then show "1 \<le> n" "n \<le> mx" "results = collect (w n) rs []" by auto
next
  show "collect wn rs [] =
       List.map_filter
         (\<lambda>r. case scrape_menu (wn r) r of Inr (Some x) \<Rightarrow> Some x | _ \<Rightarrow> None) rs"
    by (rule collect_map_filter)
next
  assume "Notified results \<in> set (fst (poll w rs mx iv))"
  then have "\<exists>n pre. fst (attempts w rs mx iv [1 ..< mx + 1])
        = pre @ [Attempted n results, Notified results]
      \<and> n \<in> set [1 ..< mx + 1] \<and> results = collect (w n) rs []"
    unfolding poll_def by (rule attempts_notified)
  then show "\<exists>n pre. fst (poll w rs mx iv) = pre @ [Attempted n results, Notified results]
               \<and> 1 \<le> n \<and> n \<le> mx \<and> results = collect (w n) rs []"
    unfolding poll_def by auto
qed

text \<open>
  The theorem in the sample run: the notification carries what attempt 2 collected, the
  record of \<open>B\<close>.
\<close>

theorem records_of_the_current_attempt_witness:
  "Notified [ex_record [66] (Some \<lparr>year = 2026, month = 2, day = 5\<rparr>) []]
     \<in> set (fst (poll ex_world [ex_restaurant [65] True, ex_restaurant [66] True] 2 900))
   \<and> (\<exists>n pre. fst (poll ex_world [ex_restaurant [65] True, ex_restaurant [66] True] 2 900)
          = pre @ [Attempted n [ex_record [66] (Some \<lparr>year = 2026, month = 2, day = 5\<rparr>) []],
                   Notified [ex_record [66] (Some \<lparr>year = 2026, month = 2, day = 5\<rparr>) []]]
        \<and> 1 \<le> n \<and> n \<le> 2
        \<and> [ex_record [66] (Some \<lparr>year = 2026, month = 2, day = 5\<rparr>) []]
            = collect (ex_world n) [ex_restaurant [65] True, ex_restaurant [66] True] [])"
proof -
  let ?rs = "[ex_restaurant [65] True, ex_restaurant [66] True]"
  let ?b = "[ex_record [66] (Some \<lparr>year = 2026, month = 2, day = 5\<rparr>) []]"
  have p: "poll ex_world ?rs 2 900
     = ([Attempted 1 [ex_record [65] (Some \<lparr>year = 2026, month = 2, day = 4\<rparr>) []],
         Slept 900, Attempted 2 ?b, Notified ?b], Some Success)"
    by (rule ex_poll_two)
  have a: "Notified ?b \<in> set (fst (poll ex_world ?rs 2 900))"
    by (simp add: p)
  have b: "\<exists>n pre. fst (poll ex_world ?rs 2 900) = pre @ [Attempted n ?b, Notified ?b]
        \<and> 1 \<le> n \<and> n \<le> 2 \<and> ?b = collect (ex_world n) ?rs []"
    by (rule records_of_the_current_attempt [where w = ex_world and rs = ?rs and mx = 2
          and iv = 900 and results = ?b, THEN conjunct2, THEN conjunct2, THEN mp])
       (rule a)
  show ?thesis by (intro conjI a b)
qed

text \<open>
  Claim C2. Let attempt \<open>k\<close>, within the budget, be the first in which some record has
  its today flag set. Then the run consists of the attempts 1 to \<open>k - 1\<close>, each followed
  by a sleep, then attempt \<open>k\<close> and the notification with the records of attempt \<open>k\<close>,
  and it ends in \<open>Success\<close>: attempts 1 to \<open>k\<close> are made and no other, there are
  \<open>k - 1\<close> sleeps, and nothing follows the notification.
\<close>

theorem success_on_first_today:
  "1 \<le> k \<and> k \<le> mx
   \<and> (\<exists>x\<in>set (collect (w k) rs []). rec_is_today x)
   \<and> (\<forall>j. 1 \<le> j \<and> j < k \<longrightarrow> (\<forall>x\<in>set (collect (w j) rs []). \<not> rec_is_today x))
   \<longrightarrow> poll w rs mx iv =
         (concat (map (\<lambda>j. [Attempted j (collect (w j) rs []), Slept iv]) [1 ..< k])
            @ [Attempted k (collect (w k) rs []), Notified (collect (w k) rs [])],
          Some Success)
     \<and> attempt_numbers (fst (poll w rs mx iv)) = [1 ..< k + 1]
     \<and> notifications (fst (poll w rs mx iv)) = [collect (w k) rs []]
     \<and> sleeps (fst (poll w rs mx iv)) = k - 1
     \<and> last (fst (poll w rs mx iv)) = Notified (collect (w k) rs [])"
proof (intro impI, elim conjE)
  assume k: "1 \<le> k" "k \<le> mx"
    and hit: "\<exists>x\<in>set (collect (w k) rs []). rec_is_today x"
    and quiet: "\<forall>j. 1 \<le> j \<and> j < k \<longrightarrow> (\<forall>x\<in>set (collect (w j) rs []). \<not> rec_is_today x)"
  let ?res = "\<lambda>j. collect (w j) rs []"
  let ?pre = "concat (map (\<lambda>j. [Attempted j (?res j), Slept iv]) [1 ..< k])"
  from hit have h: "today_menus (?res k) \<noteq> []" by (simp add: today_menus_empty_iff)
  have q: "\<forall>j\<in>set [1 ..< k]. today_menus (?res j) = [] \<and> j < mx"
    using quiet k by (auto simp: today_menus_empty_iff)
  have "poll w rs mx iv = attempts w rs mx iv ([1 ..< k] @ k # [Suc k ..< mx + 1])"
    unfolding poll_def using upt_split [OF k] by simp
  also have "\<dots> = (?pre @ fst (attempts w rs mx iv (k # [Suc k ..< mx + 1])),
                   snd (attempts w rs mx iv (k # [Suc k ..< mx + 1])))"
    by (rule attempts_quiet_prefix [OF q])
  also have "attempts w rs mx iv (k # [Suc k ..< mx + 1])
      = ([Attempted k (?res k), Notified (?res k)], Some Success)"
    using h by (simp add: Let_def)
  finally have p: "poll w rs mx iv
      = (?pre @ [Attempted k (?res k), Notified (?res k)], Some Success)"
    by simp
  have n: "attempt_numbers (fst (poll w rs mx iv)) = [1 ..< k + 1]"
    using k by (simp add: p observe_quiet)
  have m: "notifications (fst (poll w rs mx iv)) = [?res k]"
    by (simp add: p observe_quiet)
  have s: "sleeps (fst (poll w rs mx iv)) = k - 1"
    by (simp add: p observe_quiet)
  have l: "last (fst (poll w rs mx iv)) = Notified (?res k)"
    by (simp add: p)
  from p n m s l show "poll w rs mx iv =
         (?pre @ [Attempted k (?res k), Notified (?res k)], Some Success)
     \<and> attempt_numbers (fst (poll w rs mx iv)) = [1 ..< k + 1]
     \<and> notifications (fst (poll w rs mx iv)) = [?res k]
     \<and> sleeps (fst (poll w rs mx iv)) = k - 1
     \<and> last (fst (poll w rs mx iv)) = Notified (?res k)"
    by (intro conjI)
qed

text \<open>
  The theorem in the sample run with a budget of six attempts: today's menu appears on
  attempt 2, and the run stops there.
\<close>

theorem success_on_first_today_witness:
  "poll ex_world [ex_restaurant [65] True, ex_restaurant [66] True] 6 900
     = ([Attempted 1 [ex_record [65] (Some \<lparr>year = 2026, month = 2, day = 4\<rparr>) []],
         Slept 900,
         Attempted 2 [ex_record [66] (Some \<lparr>year = 2026, month = 2, day = 5\<rparr>) []],
         Notified [ex_record [66] (Some \<lparr>year = 2026, month = 2, day = 5\<rparr>) []]],
        Some Success)
   \<and> attempt_numbers (fst (poll ex_world [ex_restaurant [65] True, ex_restaurant [66] True] 6 900))
       = [1, 2]
   \<and> sleeps (fst (poll ex_world [ex_restaurant [65] True, ex_restaurant [66] True] 6 900)) = 1"
proof -
  let ?rs = "[ex_restaurant [65] True, ex_restaurant [66] True]"
  have c1: "collect (ex_world 1) ?rs [] = [ex_record [65] (Some \<lparr>year = 2026, month = 2, day = 4\<rparr>) []]"
    and c2: "collect (ex_world 2) ?rs [] = [ex_record [66] (Some \<lparr>year = 2026, month = 2, day = 5\<rparr>) []]"
    by (rule ex_world_collect)+
  have hyp: "1 \<le> (2::nat) \<and> (2::nat) \<le> 6
     \<and> (\<exists>x\<in>set (collect (ex_world 2) ?rs []). rec_is_today x)
     \<and> (\<forall>j. 1 \<le> j \<and> j < 2 \<longrightarrow> (\<forall>x\<in>set (collect (ex_world j) ?rs []). \<not> rec_is_today x))"
  proof (intro conjI allI impI)
    show "1 \<le> (2::nat)" "(2::nat) \<le> 6" by simp_all
    show "\<exists>x\<in>set (collect (ex_world 2) ?rs []). rec_is_today x"
      unfolding c2 by (simp add: ex_record_flag)
    fix j :: nat assume "1 \<le> j \<and> j < 2"
    then have j: "j = 1" by simp
    show "\<forall>x\<in>set (collect (ex_world j) ?rs []). \<not> rec_is_today x"
      unfolding j c1 by (simp add: ex_record_flag)
  qed
  note t = success_on_first_today [where k = 2 and mx = 6 and w = ex_world and rs = ?rs
      and iv = 900, THEN mp, OF hyp]
  note u = small_ranges
  have r1: "poll ex_world ?rs 6 900
     = ([Attempted 1 [ex_record [65] (Some \<lparr>year = 2026, month = 2, day = 4\<rparr>) []],
         Slept 900,
         Attempted 2 [ex_record [66] (Some \<lparr>year = 2026, month = 2, day = 5\<rparr>) []],
         Notified [ex_record [66] (Some \<lparr>year = 2026, month = 2, day = 5\<rparr>) []]],
        Some Success)"
    using t [THEN conjunct1] unfolding u
    by (simp only: list.map concat.simps append.simps append_Nil2 c1 c2)
  have r2: "attempt_numbers (fst (poll ex_world ?rs 6 900)) = [1, 2]"
    using t [THEN conjunct2, THEN conjunct1] by (simp only: u)
  have r3: "sleeps (fst (poll ex_world ?rs 6 900)) = 1"
    using t [THEN conjunct2, THEN conjunct2, THEN conjunct2, THEN conjunct1] by simp
  show ?thesis by (intro conjI r1 r2 r3)
qed

text \<open>
  Claim C3, as stated, fails where it speaks of the aggregated set: a record of an
  earlier attempt does not count at the end. With a budget of two attempts and one
  restaurant that shows yesterday's menu on attempt 1 and cannot be fetched on attempt 2,
  the aggregation of the specification holds a record, yet no notification is sent.
\<close>

theorem exhausted_counterexample:
  "poll (\<lambda>n r. if n = 1 then ex_site (Some [50, 47, 52]) (Inr []) else ex_site_down)
        [ex_restaurant [65] True] 2 900
     = ([Attempted 1 [ex_record [65] (Some \<lparr>year = 2026, month = 2, day = 4\<rparr>) []],
         Slept 900, Attempted 2 [], NoData],
        Some Exhausted)
   \<and> aggregated (\<lambda>n r. if n = 1 then ex_site (Some [50, 47, 52]) (Inr []) else ex_site_down)
        [ex_restaurant [65] True] 2
     = [ex_record [65] (Some \<lparr>year = 2026, month = 2, day = 4\<rparr>) []]"
proof -
  let ?w = "\<lambda>(n::nat) (r::restaurant).
              if n = 1 then ex_site (Some [50, 47, 52]) (Inr []) else ex_site_down"
  let ?rs = "[ex_restaurant [65] True]"
  let ?a = "ex_record [65] (Some \<lparr>year = 2026, month = 2, day = 4\<rparr>) []"
  have c1: "collect (?w 1) ?rs [] = [?a]" by (simp add: scrape_ex_stale)
  have c2: "collect (?w 2) ?rs [] = []" by (simp add: scrape_ex_down)
  have p: "poll ?w ?rs 2 900
     = ([Attempted 1 [?a], Slept 900, Attempted 2 [], NoData], Some Exhausted)"
    unfolding poll_def small_ranges
    using c1 c2 by (simp add: Let_def ex_today_menus del: collect.simps)
  have "aggregated ?w ?rs 2 = [?a]"
    by (simp add: aggregated_def List.map_filter_simps numeral_2_eq_2 scrape_ex_down
        scrape_ex_stale)
  with p show ?thesis by (intro conjI)
qed

text \<open>
  Claim C3, amended. When no attempt of the budget yields a record with the today flag
  set, the run consists of the attempts 1 to \<open>max_retries\<close>, with a sleep after each but
  the last, and ends in \<open>Exhausted\<close>. There the notification is sent exactly when the
  last attempt produced a record, and it carries the records of the last attempt; when
  the last attempt produced none, no notification is sent and the run ends with the log
  entry alone.
\<close>

theorem exhausted_after_budget:
  "0 < mx
   \<and> (\<forall>j. 1 \<le> j \<and> j \<le> mx \<longrightarrow> (\<forall>x\<in>set (collect (w j) rs []). \<not> rec_is_today x))
   \<longrightarrow> poll w rs mx iv =
         (concat (map (\<lambda>j. [Attempted j (collect (w j) rs []), Slept iv]) [1 ..< mx])
            @ Attempted mx (collect (w mx) rs [])
              # (if collect (w mx) rs [] \<noteq> [] then [Notified (collect (w mx) rs [])]
                 else [NoData]),
          Some Exhausted)
     \<and> attempt_numbers (fst (poll w rs mx iv)) = [1 ..< mx + 1]
     \<and> sleeps (fst (poll w rs mx iv)) = mx - 1
     \<and> notifications (fst (poll w rs mx iv))
         = (if collect (w mx) rs [] \<noteq> [] then [collect (w mx) rs []] else [])
     \<and> (collect (w mx) rs [] = [] \<longrightarrow> last (fst (poll w rs mx iv)) = NoData)"
proof (intro impI, elim conjE)
  assume mx: "0 < mx"
    and quiet: "\<forall>j. 1 \<le> j \<and> j \<le> mx \<longrightarrow> (\<forall>x\<in>set (collect (w j) rs []). \<not> rec_is_today x)"
  let ?res = "\<lambda>j. collect (w j) rs []"
  let ?pre = "concat (map (\<lambda>j. [Attempted j (?res j), Slept iv]) [1 ..< mx])"
  let ?end = "Attempted mx (?res mx) # (if ?res mx \<noteq> [] then [Notified (?res mx)] else [NoData])"
  from mx have k: "1 \<le> mx" "mx \<le> mx" by simp_all
  have h: "today_menus (?res mx) = []"
    using quiet [rule_format, of mx] mx by (simp add: today_menus_empty_iff)
  have q: "\<forall>j\<in>set [1 ..< mx]. today_menus (?res j) = [] \<and> j < mx"
    using quiet by (auto simp: today_menus_empty_iff)
  have "poll w rs mx iv = attempts w rs mx iv ([1 ..< mx] @ mx # [Suc mx ..< mx + 1])"
    unfolding poll_def using upt_split [OF k] by simp
  also have "\<dots> = (?pre @ fst (attempts w rs mx iv (mx # [Suc mx ..< mx + 1])),
                   snd (attempts w rs mx iv (mx # [Suc mx ..< mx + 1])))"
    by (rule attempts_quiet_prefix [OF q])
  also have "attempts w rs mx iv (mx # [Suc mx ..< mx + 1]) = (?end, Some Exhausted)"
    using h by (simp add: Let_def)
  finally have p: "poll w rs mx iv = (?pre @ ?end, Some Exhausted)" by simp
  have n: "attempt_numbers (fst (poll w rs mx iv)) = [1 ..< mx + 1]"
    using mx by (simp add: p observe_quiet)
  have s: "sleeps (fst (poll w rs mx iv)) = mx - 1"
    by (simp add: p observe_quiet)
  have m: "notifications (fst (poll w rs mx iv)) = (if ?res mx \<noteq> [] then [?res mx] else [])"
    by (simp add: p observe_quiet)
  have l: "?res mx = [] \<longrightarrow> last (fst (poll w rs mx iv)) = NoData"
    by (simp add: p)
  from p n s m l show "poll w rs mx iv = (?pre @ ?end, Some Exhausted)
     \<and> attempt_numbers (fst (poll w rs mx iv)) = [1 ..< mx + 1]
     \<and> sleeps (fst (poll w rs mx iv)) = mx - 1
     \<and> notifications (fst (poll w rs mx iv)) = (if ?res mx \<noteq> [] then [?res mx] else [])
     \<and> (?res mx = [] \<longrightarrow> last (fst (poll w rs mx iv)) = NoData)"
    by (intro conjI)
qed

text \<open>
  The theorem with a budget of two attempts, for a restaurant that shows yesterday's menu
  throughout (the notification is sent with the stale record) and for a restaurant that
  can never be fetched (nothing is sent).
\<close>

theorem exhausted_after_budget_witness:
  "poll (\<lambda>n r. ex_site (Some [50, 47, 52]) (Inr [])) [ex_restaurant [65] True] 2 900
     = ([Attempted 1 [ex_record [65] (Some \<lparr>year = 2026, month = 2, day = 4\<rparr>) []],
         Slept 900,
         Attempted 2 [ex_record [65] (Some \<lparr>year = 2026, month = 2, day = 4\<rparr>) []],
         Notified [ex_record [65] (Some \<lparr>year = 2026, month = 2, day = 4\<rparr>) []]],
        Some Exhausted)
   \<and> poll (\<lambda>n r. ex_site_down) [ex_restaurant [65] True] 2 900
     = ([Attempted 1 [], Slept 900, Attempted 2 [], NoData], Some Exhausted)
   \<and> notifications (fst (poll (\<lambda>n r. ex_site_down) [ex_restaurant [65] True] 2 900)) = []"
proof -
  let ?rs = "[ex_restaurant [65] True]"
  let ?w1 = "\<lambda>(n::nat) (r::restaurant). ex_site (Some [50, 47, 52]) (Inr [])"
  let ?w2 = "\<lambda>(n::nat) (r::restaurant). ex_site_down"
  let ?a = "ex_record [65] (Some \<lparr>year = 2026, month = 2, day = 4\<rparr>) []"
  have c1: "collect (\<lambda>r. ex_site (Some [50, 47, 52]) (Inr [])) ?rs [] = [?a]"
    by (simp add: scrape_ex_stale)
  have c2: "collect (\<lambda>r. ex_site_down) ?rs [] = []"
    by (simp add: scrape_ex_down)
  have h1: "0 < (2::nat)
     \<and> (\<forall>j. 1 \<le> j \<and> j \<le> 2 \<longrightarrow> (\<forall>x\<in>set (collect (?w1 j) ?rs []). \<not> rec_is_today x))"
    unfolding c1 by (simp add: ex_record_flag)
  have h2: "0 < (2::nat)
     \<and> (\<forall>j. 1 \<le> j \<and> j \<le> 2 \<longrightarrow> (\<forall>x\<in>set (collect (?w2 j) ?rs []). \<not> rec_is_today x))"
    unfolding c2 by simp
  note t1 = exhausted_after_budget [where mx = 2 and w = ?w1 and rs = ?rs and iv = 900,
      THEN mp, OF h1]
  note t2 = exhausted_after_budget [where mx = 2 and w = ?w2 and rs = ?rs and iv = 900,
      THEN mp, OF h2]
  note u = small_ranges
  have r1: "poll ?w1 ?rs 2 900
     = ([Attempted 1 [?a], Slept 900, Attempted 2 [?a], Notified [?a]], Some Exhausted)"
    using t1 [THEN conjunct1] unfolding u c1
    by (simp only: list.map concat.simps append.simps append_Nil2 list.simps if_True if_False simp_thms)
  have r2: "poll ?w2 ?rs 2 900
     = ([Attempted 1 [], Slept 900, Attempted 2 [], NoData], Some Exhausted)"
    using t2 [THEN conjunct1] unfolding u c2
    by (simp only: list.map concat.simps append.simps append_Nil2 list.simps if_True if_False simp_thms)
  have r3: "notifications (fst (poll ?w2 ?rs 2 900)) = []"
    using t2 [THEN conjunct2, THEN conjunct2, THEN conjunct2, THEN conjunct1] unfolding c2
    by (simp only: simp_thms if_False)
  show ?thesis by (intro conjI r1 r2 r3)
qed

end
